theory Spec2Isabelle
  imports Complex_Main
begin

section \<open>JavaScript numbers\<close>

text \<open>
  The \<open>amount\<close> of \<open>Listing.fetchMore\<close> and \<open>More.fetchMore\<close> is a JavaScript number:
  \<open>NaN\<close>, one of the two infinities (\<open>fetchAll\<close> passes \<open>Infinity\<close>), or a finite double,
  which may have a fractional part. A finite double is kept as the rational number it
  denotes; the rounding of sums and differences beyond \<open>2^53\<close> is outside the model.
\<close>

datatype jsnum = NaN | NegInf | Fin rat | PosInf

definition MAX_SAFE_INTEGER :: int where
  "MAX_SAFE_INTEGER = 9007199254740991"

definition MAX_API_INFO_AMOUNT :: int where
  "MAX_API_INFO_AMOUNT = 100"

definition MAX_API_MORECHILDREN_AMOUNT :: int where
  "MAX_API_MORECHILDREN_AMOUNT = 20"

definition MAX_TOKEN_LATENCY :: int where
  "MAX_TOKEN_LATENCY = 10000"

text \<open>\<open>x <= 0\<close>; every comparison with \<open>NaN\<close> is false.\<close>

fun le_zero :: "jsnum \<Rightarrow> bool" where
  "le_zero NaN = False"
| "le_zero NegInf = True"
| "le_zero (Fin q) = (q \<le> 0)"
| "le_zero PosInf = False"

text \<open>\<open>Math.min(x, k)\<close> for an integer \<open>k\<close>.\<close>

fun math_min :: "jsnum \<Rightarrow> int \<Rightarrow> jsnum" where
  "math_min NaN k = NaN"
| "math_min NegInf k = NegInf"
| "math_min (Fin q) k = Fin (min q (of_int k))"
| "math_min PosInf k = Fin (of_int k)"

text \<open>\<open>x - n\<close> and \<open>x + n\<close> for an array length \<open>n\<close>.\<close>

fun minus_len :: "jsnum \<Rightarrow> nat \<Rightarrow> jsnum" where
  "minus_len NaN n = NaN"
| "minus_len NegInf n = NegInf"
| "minus_len (Fin q) n = Fin (q - of_nat n)"
| "minus_len PosInf n = PosInf"

fun plus_len :: "jsnum \<Rightarrow> nat \<Rightarrow> jsnum" where
  "plus_len NaN n = NaN"
| "plus_len NegInf n = NegInf"
| "plus_len (Fin q) n = Fin (q + of_nat n)"
| "plus_len PosInf n = PosInf"

text \<open>\<open>n > x\<close> for an array length \<open>n\<close>.\<close>

fun len_gt :: "nat \<Rightarrow> jsnum \<Rightarrow> bool" where
  "len_gt n NaN = False"
| "len_gt n NegInf = True"
| "len_gt n (Fin q) = (q < of_nat n)"
| "len_gt n PosInf = False"

text \<open>
  \<open>ToIntegerOrInfinity\<close> on a finite number: the fractional part is cut off, towards
  zero.
\<close>

definition to_integer :: "rat \<Rightarrow> int" where
  "to_integer q = (if q < 0 then \<lceil>q\<rceil> else \<lfloor>q\<rfloor>)"

text \<open>
  Array methods convert an index argument with \<open>ToIntegerOrInfinity\<close> (\<open>NaN\<close> becomes 0)
  and then clamp it: a negative start index counts from the end of the array.
\<close>

fun relative_index :: "jsnum \<Rightarrow> nat \<Rightarrow> nat" where
  "relative_index NaN len = 0"
| "relative_index NegInf len = 0"
| "relative_index (Fin q) len =
     (if to_integer q < 0 then nat (int len + to_integer q) else min (nat (to_integer q)) len)"
| "relative_index PosInf len = len"

text \<open>The number of elements \<open>splice(0, count)\<close> removes from an array of length \<open>len\<close>.\<close>

fun delete_count :: "jsnum \<Rightarrow> nat \<Rightarrow> nat" where
  "delete_count NaN len = 0"
| "delete_count NegInf len = 0"
| "delete_count (Fin q) len = min (nat (to_integer q)) len"
| "delete_count PosInf len = len"

text \<open>\<open>xs.slice(start)\<close>, which is also what \<open>xs.splice(start)\<close> removes.\<close>

definition slice_from :: "jsnum \<Rightarrow> 'a list \<Rightarrow> 'a list" where
  "slice_from start xs = drop (relative_index start (length xs)) xs"

text \<open>What \<open>xs.splice(start)\<close> leaves in \<open>xs\<close>.\<close>

definition keep_before :: "jsnum \<Rightarrow> 'a list \<Rightarrow> 'a list" where
  "keep_before start xs = take (relative_index start (length xs)) xs"

text \<open>\<open>xs.slice(start, end)\<close> for a start index that is an array index already.\<close>

definition slice :: "nat \<Rightarrow> jsnum \<Rightarrow> 'a list \<Rightarrow> 'a list" where
  "slice start end xs =
     (let s = min start (length xs); e = relative_index end (length xs)
      in take (e - s) (drop s xs))"

section \<open>The data model: Listing, More, requests\<close>

text \<open>
  A query cursor (\<open>_query.before\<close>, \<open>_query.after\<close>) is \<open>undefined\<close> on a Listing that
  has not been fetched, \<open>null\<close> when reddit reports the end, and a string otherwise.
\<close>

datatype cursor = Undefined | Null | Token string

text \<open>A cursor is truthy when it is a non-empty string.\<close>

fun truthy :: "cursor \<Rightarrow> bool" where
  "truthy (Token s) = (s \<noteq> [])"
| "truthy _ = False"

datatype verb = Delete | Get | Head | Patch | Post | Put

datatype pvalue = PNull | PString string | PNumber int | PIds "string list"

text \<open>
  The \<open>_query\<close> object: the two cursors, the \<open>limit\<close> key (absent is \<open>None\<close>) and the
  remaining keys in insertion order. The comma-joined \<open>id\<close> parameter of a bulk-info
  request is kept as the list of identifiers it joins (\<open>PIds\<close>).
\<close>

record query =
  before :: cursor
  after :: cursor
  limit :: "jsnum option"
  params :: "(string \<times> pvalue) list"

text \<open>Class \<open>More\<close> (objects/More.ts).\<close>

record More =
  children :: "string list"
  link_id :: "string option"
  parent_id :: "string option"

text \<open>
  Class \<open>Listing\<close> (objects/Listing.ts): the array elements and the properties listed in
  \<open>INTERNAL_DEFAULTS\<close>. Items are content objects of an arbitrary type; \<open>More\<close> markers
  live in \<open>_more\<close> only. The field \<open>_transform\<close> is applied to a page before the page is
  merged; a page is modelled as the Listing it yields.
\<close>

record 'a Listing =
  items :: "'a list"
  query :: query
  http_method :: verb
  isCommentList :: bool
  listing_link_id :: "string option"
  uri :: "string option"
  more_stub :: "More option"
  cachedLookahead :: "'a list option"

definition emptyChildren :: More where
  "emptyChildren = \<lparr>children = [], link_id = None, parent_id = None\<rparr>"

datatype error = InvalidMethodCallError | TypeError | RequestError nat

record request =
  req_uri :: "string option"
  req_qs :: query
  req_method :: verb

text \<open>
  Every request that \<open>fetchMore\<close> hands to a request function is logged with the place
  it comes from: the page request that \<open>_fetchMoreRegular\<close> passes to \<open>oauthRequest\<close>, a
  bulk-info request of \<open>More.fetchMore\<close>, or a request of the tree strategy
  \<open>More.fetchTree\<close>.
\<close>

datatype event = Page request | Info request | Tree request

text \<open>
  Promises are modelled by their outcome: \<open>Inl\<close> a rejection, \<open>Inr\<close> the resolved value,
  and \<open>then\<close> is sequencing. A run returns its outcome, \<open>None\<close> while the promise has not
  settled, together with the log of the requests handed over.

  The requester \<open>_r\<close> of a Listing or a \<open>More\<close> enters through three things. \<open>proxies\<close> is
  its configuration option of that name, which \<open>createConfig\<close> sets to \<open>true\<close>. \<open>srv\<close> is the
  outcome of \<open>oauthRequest.bind(this)(...)\<close> inside \<open>_get\<close>, given the requests handed over
  so far: it rejects, or resolves with the populated Listing. The calls of one
  \<open>More.fetchMore\<close> go through the request pipeline (embedded further down) side by
  side, so their outcomes are taken as given here. \<open>tree\<close> is what becomes of the tree
  strategy (\<open>More.fetchTree\<close>) once its first request has been handed to \<open>_get\<close> with
  \<open>proxies\<close> off: a function of the stub, the amount, the start index and the log that
  rejects, resolves with items, or does not settle (\<open>None\<close>), and reports the further
  requests handed over.
\<close>

record 'a env =
  proxies :: bool
  srv :: "event list \<Rightarrow> request \<Rightarrow> error + 'a Listing"
  tree :: "More \<Rightarrow> jsnum \<Rightarrow> nat \<Rightarrow> event list \<Rightarrow> (error + 'a list) option \<times> request list"

type_synonym 'r run = "(error + 'r) option \<times> event list"

text \<open>
  The getter \<open>_promiseWrap\<close> (request_handler.ts). With \<open>proxies\<close> off it is the
  identity. With \<open>proxies\<close> on it is an async function that expects an array of
  functions: handed a promise, \<open>(chain || []).forEach\<close> is not a function and the call
  rejects with a \<open>TypeError\<close>, whatever becomes of the promise it was handed.
\<close>

definition promiseWrap :: "'a env \<Rightarrow> (error + 'r) option \<Rightarrow> (error + 'r) option" where
  "promiseWrap E outcome = (if proxies E then Some (Inl TypeError) else outcome)"

section \<open>Listing: isFinished, clone, empty\<close>

text \<open>lodash \<open>isEmpty\<close> on the lookahead: \<open>null\<close> and the empty array are empty.\<close>

fun isEmpty :: "'a list option \<Rightarrow> bool" where
  "isEmpty None = True"
| "isEmpty (Some xs) = (xs = [])"

text \<open>\<open>!this._uri\<close>: \<open>null\<close> and the empty string are falsy.\<close>

fun no_uri :: "string option \<Rightarrow> bool" where
  "no_uri None = True"
| "no_uri (Some u) = (u = [])"

definition isFinished :: "'a Listing \<Rightarrow> bool" where
  "isFinished L =
     (if isCommentList L
      then isEmpty (cachedLookahead L) \<and>
           (case more_stub L of None \<Rightarrow> False | Some m \<Rightarrow> children m = [])
      else no_uri (uri L) \<or> (after (query L) = Null \<and> before (query L) = Null))"

text \<open>\<open>More._clone\<close>: a new object with the same own properties.\<close>

definition More_clone :: "More \<Rightarrow> More" where
  "More_clone m = \<lparr>children = children m, link_id = link_id m, parent_id = parent_id m\<rparr>"

text \<open>
  \<open>Listing._clone\<close> (shallow): picks the internal properties, copies \<open>_query\<close> and
  \<open>_cachedLookahead\<close>, clones the stub, and builds a new Listing over the same items.
\<close>

definition clone :: "'a Listing \<Rightarrow> 'a Listing" where
  "clone L =
     \<lparr>items = items L,
      query = \<lparr>before = before (query L), after = after (query L),
               limit = limit (query L), params = params (query L)\<rparr>,
      http_method = http_method L,
      isCommentList = isCommentList L,
      listing_link_id = listing_link_id L,
      uri = uri L,
      more_stub = map_option More_clone (more_stub L),
      cachedLookahead = map_option (\<lambda>xs. xs) (cachedLookahead L)\<rparr>"

text \<open>\<open>Listing._empty\<close>: \<open>this.splice(0, this.length)\<close>.\<close>

definition empty_items :: "'a Listing \<Rightarrow> 'a Listing" where
  "empty_items L = L\<lparr>items := []\<rparr>"

section \<open>More.fetchMore, flat strategy\<close>

definition getNextIdSlice :: "string list \<Rightarrow> nat \<Rightarrow> jsnum \<Rightarrow> int \<Rightarrow> string list" where
  "getNextIdSlice chn startIndex desiredAmount cap =
     slice startIndex (plus_len (math_min desiredAmount cap) startIndex) chn"

text \<open>
  The request that \<open>_getListing({uri: 'api/info', qs: {id: ids.join(',')}})\<close> hands to
  \<open>_get\<close>: with neither a \<open>limit\<close> nor listing options it takes the second branch of
  \<open>_getListing\<close>, with \<open>count: 9999\<close> merged into the query.
\<close>

definition info_request :: "string list \<Rightarrow> request" where
  "info_request ids =
     \<lparr>req_uri = Some ''api/info'',
      req_qs = \<lparr>before = Undefined, after = Undefined, limit = None,
                params = [(''count'', PNumber 9999), (''id'', PIds ids)]\<rparr>,
      req_method = Get\<rparr>"

text \<open>
  \<open>_get(options)\<close> is \<open>this._promiseWrap(oauthRequest.bind(this)({...options, method: 'get'}))\<close>:
  the request is handed over, and what comes back is what \<open>_promiseWrap\<close> makes of its
  outcome (see \<open>promiseWrap\<close>; the outcome \<open>srv\<close> gives has settled). The callback that
  \<open>_getListing\<close> adds hands the Listing on.
\<close>

definition getListing :: "'a env \<Rightarrow> event list \<Rightarrow> request \<Rightarrow> error + 'a Listing" where
  "getListing E lg req = (if proxies E then Inl TypeError else srv E lg req)"

text \<open>
  \<open>More.fetchTree(options, startIndex)\<close>: the request for the next identifiers, at most
  \<open>MAX_API_MORECHILDREN_AMOUNT\<close> of them, goes to \<open>_get\<close>, with \<open>link_id\<close> set to
  \<open>this.link_id || this.parent_id\<close>. With \<open>proxies\<close> on, \<open>_get\<close> rejects and so does
  \<open>fetchTree\<close>; otherwise the replies are built into trees, nested stubs are fetched and
  \<open>fetchMore\<close> is called for the rest, which is the part left to \<open>tree\<close>.
\<close>

definition morechildren_request :: "More \<Rightarrow> string list \<Rightarrow> request" where
  "morechildren_request m ids =
     \<lparr>req_uri = Some ''api/morechildren'',
      req_qs = \<lparr>before = Undefined, after = Undefined, limit = None,
                params = [(''api_type'', PString ''json''), (''children'', PIds ids)] @
                         (case (case link_id m of Some (c # cs) \<Rightarrow> Some (c # cs) | _ \<Rightarrow> parent_id m) of
                            None \<Rightarrow> []
                          | Some l \<Rightarrow> [(''link_id'', PString l)])\<rparr>,
      req_method = Get\<rparr>"

definition fetchTree :: "'a env \<Rightarrow> More \<Rightarrow> jsnum \<Rightarrow> nat \<Rightarrow> event list \<Rightarrow> 'a list run" where
  "fetchTree E m amount startIndex lg =
     (if le_zero amount \<or> startIndex \<ge> length (children m) then (Some (Inr []), lg)
      else
        (let ids = getNextIdSlice (children m) startIndex amount MAX_API_MORECHILDREN_AMOUNT;
             lg1 = lg @ [Tree (morechildren_request m ids)]
         in if proxies E then (Some (Inl TypeError), lg1)
            else (case tree E m amount startIndex lg of
                    (res, reqs) \<Rightarrow> (res, lg1 @ map Tree reqs))))"

text \<open>The fullname of a comment identifier: \<open>id => `t1_${id}`\<close>.\<close>

definition t1_prefix :: "string \<Rightarrow> string" where
  "t1_prefix ident = ''t1_'' @ ident"

text \<open>
  \<open>Promise.all([promiseForThisBatch, promiseForRemainingItems]).then(flatten)\<close>. Both
  promises have been started when they are joined. A rejected batch rejects the join
  even while the remaining items are pending; of two rejections the batch's is reported.
\<close>

fun join_flatten :: "error + 'a list \<Rightarrow> (error + 'a list) option \<Rightarrow> (error + 'a list) option" where
  "join_flatten (Inl e) r = Some (Inl e)"
| "join_flatten (Inr xs) None = None"
| "join_flatten (Inr xs) (Some (Inl e)) = Some (Inl e)"
| "join_flatten (Inr xs) (Some (Inr ys)) = Some (Inr (xs @ ys))"

text \<open>
  \<open>More.fetchMore(options, startIndex)\<close>. When the slice of identifiers is empty (an
  amount between 0 and 1) the source hands over a request for no identifiers and calls
  itself with the same arguments again, without end: the model answers \<open>None\<close> there and
  logs nothing more. Otherwise the start index grows, which is the termination
  argument.
\<close>

function More_fetchMore ::
  "'a env \<Rightarrow> More \<Rightarrow> jsnum \<Rightarrow> bool \<Rightarrow> nat \<Rightarrow> event list \<Rightarrow> 'a list run"
where
  "More_fetchMore E m amount skipReplies startIndex lg =
     (if le_zero amount \<or> startIndex \<ge> length (children m) then (Some (Inr []), lg)
      else if \<not> skipReplies then fetchTree E m amount startIndex lg
      else
        (let ids = map t1_prefix
                     (getNextIdSlice (children m) startIndex amount MAX_API_INFO_AMOUNT)
         in if ids = [] then (None, lg)
            else
              (let req = info_request ids;
                   promiseForThisBatch = map_sum (\<lambda>e. e) items (getListing E lg req)
               in case More_fetchMore E m (minus_len amount (length ids)) skipReplies
                         (startIndex + length ids) (lg @ [Info req]) of
                    (promiseForRemainingItems, lg') \<Rightarrow>
                      (join_flatten promiseForThisBatch promiseForRemainingItems, lg'))))"
  by pat_completeness auto
termination
  by (relation "measure (\<lambda>(E, m, amount, skipReplies, startIndex, lg). length (children m) - startIndex)")
     (auto simp flip: length_greater_0_conv)

declare More_fetchMore.simps [simp del]

section \<open>Listing.fetchMore\<close>

text \<open>
  The argument of \<open>fetchMore\<close>: a bare number, an options object (\<open>amount\<close> may be missing
  or hold a value that is not a number), or no object at all (\<open>undefined\<close>, \<open>null\<close>).
\<close>

datatype amount_value = Missing | NotANumber | Number jsnum

record options =
  amount :: amount_value
  append :: "bool option"
  skipReplies :: "bool option"

datatype fetch_arg = NoObject | BareNumber jsnum | Options options

record parsedOptions =
  p_amount :: jsnum
  p_append :: bool
  p_skipReplies :: bool

text \<open>
  The first lines of \<open>fetchMore\<close>: \<open>options.skipReplies\<close> is read first (a \<open>TypeError\<close>
  when there is no object), \<open>append\<close> defaults to \<open>true\<close>, and an \<open>amount\<close> that is not a
  number or is \<open>NaN\<close> is rejected.
\<close>

fun parse_options :: "fetch_arg \<Rightarrow> error + parsedOptions" where
  "parse_options NoObject = Inl TypeError"
| "parse_options (BareNumber n) =
     (if n = NaN then Inl InvalidMethodCallError
      else Inr \<lparr>p_amount = n, p_append = True, p_skipReplies = False\<rparr>)"
| "parse_options (Options opts) =
     (case amount opts of
        Number n \<Rightarrow>
          (if n = NaN then Inl InvalidMethodCallError
           else Inr \<lparr>p_amount = n,
                     p_append = (case append opts of None \<Rightarrow> True | Some b \<Rightarrow> b),
                     p_skipReplies = (case skipReplies opts of None \<Rightarrow> False | Some b \<Rightarrow> b)\<rparr>)
      | _ \<Rightarrow> Inl InvalidMethodCallError)"

text \<open>
  \<open>omitBy(clone(this._query), value => value === null || value === undefined)\<close>, then the
  \<open>limit\<close> of a Listing that is not a comment list.
\<close>

definition omit_nullish :: "query \<Rightarrow> query" where
  "omit_nullish q =
     \<lparr>before = (if before q = Null then Undefined else before q),
      after = (if after q = Null then Undefined else after q),
      limit = limit q,
      params = filter (\<lambda>(k, v). v \<noteq> PNull) (params q)\<rparr>"

definition page_request :: "'a Listing \<Rightarrow> jsnum \<Rightarrow> request" where
  "page_request L n =
     (let q = omit_nullish (query L);
          q = (if \<not> isCommentList L then q\<lparr>limit := Some (math_min n MAX_SAFE_INTEGER)\<rparr> else q)
      in \<lparr>req_uri = uri L, req_qs = q, req_method = http_method L\<rparr>)"

text \<open>
  \<open>oauthRequest({uri, qs, method})\<close> as \<open>_fetchMoreRegular\<close> calls it: the function imported
  from request_handler, with no receiver. Its \<open>this\<close> is \<open>undefined\<close>, so building the
  promise chain throws at \<open>this._config.retryErrorCodes\<close> and the call rejects with a
  \<open>TypeError\<close>; the first step of the chain (\<open>_awaitRatelimit.bind(this)()\<close>) throws as
  well, and nothing is sent. The request pipeline with a receiver is embedded further
  down.
\<close>

definition oauthRequest_no_receiver :: "request \<Rightarrow> error + 'a Listing" where
  "oauthRequest_no_receiver req = Inl TypeError"

text \<open>
  The callback of \<open>_fetchMoreRegular\<close> that merges a page into a clone, up to the
  recursive call.
\<close>

definition merge_page :: "'a Listing \<Rightarrow> parsedOptions \<Rightarrow> 'a Listing \<Rightarrow> 'a Listing" where
  "merge_page L p response =
     (let cloned = clone L;
          cloned = (if \<not> p_append p then empty_items cloned else cloned);
          cloned =
            (if truthy (before (query cloned))
             then cloned\<lparr>items := items response @ items cloned,
                         query := (query cloned)\<lparr>before := before (query response), after := Null\<rparr>\<rparr>
             else cloned\<lparr>items := items cloned @ items response,
                         query := (query cloned)\<lparr>before := Null, after := after (query response)\<rparr>\<rparr>)
      in if isCommentList L
         then (let cloned =
                     cloned\<lparr>more_stub :=
                       (case more_stub cloned of
                          Some m \<Rightarrow> Some m
                        | None \<Rightarrow> (case more_stub response of
                                     Some m \<Rightarrow> Some m
                                   | None \<Rightarrow> Some emptyChildren))\<rparr>
               in if len_gt (length (items response)) (p_amount p)
                  then cloned\<lparr>items := keep_before (p_amount p) (items cloned),
                              cachedLookahead := Some (slice_from (p_amount p) (items cloned))\<rparr>
                  else cloned)
         else cloned)"

text \<open>
  \<open>_fetchMoreRegular\<close>, with the recursive call \<open>cloned.fetchMore(...)\<close> of its callback
  passed in as \<open>again\<close>. The page request is built and handed to \<open>oauthRequest\<close>; the
  callback runs when that call resolves.
\<close>

definition fetchMoreRegular ::
  "('a Listing \<Rightarrow> fetch_arg \<Rightarrow> event list \<Rightarrow> 'a Listing run) \<Rightarrow>
   'a Listing \<Rightarrow> parsedOptions \<Rightarrow> event list \<Rightarrow> 'a Listing run"
where
  "fetchMoreRegular again L p lg =
     (let req = page_request L (p_amount p);
          lg1 = lg @ [Page req]
      in case oauthRequest_no_receiver req of
           Inl e \<Rightarrow> (Some (Inl e), lg1)
         | Inr response \<Rightarrow>
             again (merge_page L p response)
               (Options \<lparr>amount = Number (minus_len (p_amount p) (length (items response))),
                         append = Some True,
                         skipReplies = Some (p_skipReplies p)\<rparr>)
               lg1)"

text \<open>\<open>_fetchMoreComments\<close> for the stub \<open>m\<close> held in \<open>this._more\<close>.\<close>

definition fetchMoreComments ::
  "'a env \<Rightarrow> 'a Listing \<Rightarrow> More \<Rightarrow> parsedOptions \<Rightarrow> event list \<Rightarrow> 'a Listing run"
where
  "fetchMoreComments E L m p lg =
     (case More_fetchMore E m (p_amount p) (p_skipReplies p) 0 lg of
        (None, lg') \<Rightarrow> (None, lg')
      | (Some (Inl e), lg') \<Rightarrow> (Some (Inl e), lg')
      | (Some (Inr moreComments), lg') \<Rightarrow>
          (let cloned = clone L;
               cloned = (if \<not> p_append p then empty_items cloned else cloned);
               cloned = cloned\<lparr>items := items cloned @ moreComments\<rparr>;
               cloned = cloned\<lparr>more_stub :=
                          map_option (\<lambda>c. c\<lparr>children := slice_from (p_amount p) (children c)\<rparr>)
                            (more_stub cloned)\<rparr>
           in (Some (Inr cloned), lg')))"

text \<open>
  \<open>fetchMore\<close>. The outcome of the finished case and of the two fetching functions goes
  through \<open>_promiseWrap\<close>; the call on the clone that has taken items from the lookahead
  buffer is returned as it is. A call may go on for ever (a drained lookahead array
  stays truthy), so the recursion is bounded by a count of nested calls; when the
  count is used up the outcome is \<open>None\<close>, with the requests logged so far.
\<close>

primrec fetchMore ::
  "nat \<Rightarrow> 'a env \<Rightarrow> 'a Listing \<Rightarrow> fetch_arg \<Rightarrow> event list \<Rightarrow> 'a Listing run"
where
  "fetchMore 0 E L arg lg = (None, lg)"
| "fetchMore (Suc k) E L arg lg =
     (case parse_options arg of
        Inl e \<Rightarrow> (Some (Inl e), lg)
      | Inr p \<Rightarrow>
          if le_zero (p_amount p) \<or> isFinished L
          then (promiseWrap E
                  (Some (Inr (if p_append p then clone L else empty_items (clone L)))), lg)
          else
            (case cachedLookahead L of
               Some buf \<Rightarrow>
                 (let cloned = clone L;
                      n = delete_count (p_amount p) (length buf);
                      cloned = cloned\<lparr>items := items cloned @ take n buf,
                                      cachedLookahead := Some (drop n buf)\<rparr>
                  in fetchMore k E cloned
                       (BareNumber (plus_len (minus_len (p_amount p) (length (items cloned)))
                                      (length (items L))))
                       lg)
             | None \<Rightarrow>
                 (case (case more_stub L of
                          Some m \<Rightarrow> fetchMoreComments E L m p lg
                        | None \<Rightarrow> fetchMoreRegular (fetchMore k E) L p lg) of
                    (outcome, lg') \<Rightarrow> (promiseWrap E outcome, lg'))))"

text \<open>\<open>fetchAll(options)\<close> is \<open>fetchMore({...options, amount: Infinity})\<close>.\<close>

definition fetchAll ::
  "nat \<Rightarrow> 'a env \<Rightarrow> 'a Listing \<Rightarrow> options option \<Rightarrow> event list \<Rightarrow> 'a Listing run"
where
  "fetchAll k E L opts lg =
     fetchMore k E L
       (Options \<lparr>amount = Number PosInf,
                 append = (case opts of None \<Rightarrow> None | Some ops \<Rightarrow> append ops),
                 skipReplies = (case opts of None \<Rightarrow> None | Some ops \<Rightarrow> skipReplies ops)\<rparr>)
       lg"

section \<open>Listing.fetchMore over a store of objects\<close>

text \<open>
  \<open>fetchMore\<close> works on clones and mutates them in place. Whether the original Listing
  is left alone depends on what the clone shares with it, so this second model keeps
  the objects in a store: a Listing object (with its array elements), its \<open>_query\<close>
  object, its \<open>_cachedLookahead\<close> array, its \<open>More\<close> object and that object's \<open>children\<close>
  array live at addresses, and the fields hold references. \<open>next_ref\<close> is the next free
  address; \<open>emptyChildren_ref\<close> is the address of the module-level \<open>emptyChildren\<close>.
\<close>

record 'a ListingObj =
  o_items :: "'a list"
  o_query :: nat
  o_method :: verb
  o_isCommentList :: bool
  o_link_id :: "string option"
  o_uri :: "string option"
  o_more :: "nat option"
  o_cachedLookahead :: "nat option"

record MoreObj =
  m_children :: nat
  m_link_id :: "string option"
  m_parent_id :: "string option"

record 'a heap =
  listings :: "nat \<rightharpoonup> 'a ListingObj"
  queries :: "nat \<rightharpoonup> query"
  arrays :: "nat \<rightharpoonup> 'a list"
  mores :: "nat \<rightharpoonup> MoreObj"
  id_arrays :: "nat \<rightharpoonup> string list"
  next_ref :: nat
  emptyChildren_ref :: nat

text \<open>Allocation of a new object, and assignment to an object that exists.\<close>

definition new_query :: "query \<Rightarrow> 'a heap \<Rightarrow> 'a heap \<times> nat" where
  "new_query q h = (h\<lparr>queries := (queries h)(next_ref h \<mapsto> q), next_ref := Suc (next_ref h)\<rparr>, next_ref h)"

definition new_array :: "'a list \<Rightarrow> 'a heap \<Rightarrow> 'a heap \<times> nat" where
  "new_array xs h = (h\<lparr>arrays := (arrays h)(next_ref h \<mapsto> xs), next_ref := Suc (next_ref h)\<rparr>, next_ref h)"

definition new_ids :: "string list \<Rightarrow> 'a heap \<Rightarrow> 'a heap \<times> nat" where
  "new_ids ids h = (h\<lparr>id_arrays := (id_arrays h)(next_ref h \<mapsto> ids), next_ref := Suc (next_ref h)\<rparr>, next_ref h)"

definition new_More :: "MoreObj \<Rightarrow> 'a heap \<Rightarrow> 'a heap \<times> nat" where
  "new_More m h = (h\<lparr>mores := (mores h)(next_ref h \<mapsto> m), next_ref := Suc (next_ref h)\<rparr>, next_ref h)"

definition new_Listing :: "'a ListingObj \<Rightarrow> 'a heap \<Rightarrow> 'a heap \<times> nat" where
  "new_Listing L h = (h\<lparr>listings := (listings h)(next_ref h \<mapsto> L), next_ref := Suc (next_ref h)\<rparr>, next_ref h)"

definition set_Listing :: "nat \<Rightarrow> 'a ListingObj \<Rightarrow> 'a heap \<Rightarrow> 'a heap" where
  "set_Listing r L h = h\<lparr>listings := (listings h)(r \<mapsto> L)\<rparr>"

definition set_query :: "nat \<Rightarrow> query \<Rightarrow> 'a heap \<Rightarrow> 'a heap" where
  "set_query r q h = h\<lparr>queries := (queries h)(r \<mapsto> q)\<rparr>"

definition set_array :: "nat \<Rightarrow> 'a list \<Rightarrow> 'a heap \<Rightarrow> 'a heap" where
  "set_array r xs h = h\<lparr>arrays := (arrays h)(r \<mapsto> xs)\<rparr>"

definition set_More :: "nat \<Rightarrow> MoreObj \<Rightarrow> 'a heap \<Rightarrow> 'a heap" where
  "set_More r m h = h\<lparr>mores := (mores h)(r \<mapsto> m)\<rparr>"

text \<open>
  Reading an object. A reference held by an object of the store points to an object of
  the store; the readers answer an empty object where it does not.
\<close>

definition get_Listing :: "'a heap \<Rightarrow> nat \<Rightarrow> 'a ListingObj" where
  "get_Listing h r =
     (case listings h r of
        Some L \<Rightarrow> L
      | None \<Rightarrow> \<lparr>o_items = [], o_query = r, o_method = Get, o_isCommentList = False,
                  o_link_id = None, o_uri = None, o_more = None, o_cachedLookahead = None\<rparr>)"

definition get_query :: "'a heap \<Rightarrow> nat \<Rightarrow> query" where
  "get_query h r =
     (case queries h r of
        Some q \<Rightarrow> q
      | None \<Rightarrow> \<lparr>before = Undefined, after = Undefined, limit = None, params = []\<rparr>)"

definition get_array :: "'a heap \<Rightarrow> nat \<Rightarrow> 'a list" where
  "get_array h r = (case arrays h r of Some xs \<Rightarrow> xs | None \<Rightarrow> [])"

definition get_ids :: "'a heap \<Rightarrow> nat \<Rightarrow> string list" where
  "get_ids h r = (case id_arrays h r of Some xs \<Rightarrow> xs | None \<Rightarrow> [])"

definition get_More :: "'a heap \<Rightarrow> nat \<Rightarrow> MoreObj" where
  "get_More h r =
     (case mores h r of
        Some m \<Rightarrow> m
      | None \<Rightarrow> \<lparr>m_children = r, m_link_id = None, m_parent_id = None\<rparr>)"

text \<open>The \<open>More\<close> object at a reference, and the Listing at a reference, as values.\<close>

definition More_at :: "'a heap \<Rightarrow> nat \<Rightarrow> More" where
  "More_at h r =
     (let m = get_More h r
      in \<lparr>children = get_ids h (m_children m), link_id = m_link_id m, parent_id = m_parent_id m\<rparr>)"

definition Listing_of :: "'a heap \<Rightarrow> 'a ListingObj \<Rightarrow> 'a Listing" where
  "Listing_of h L =
     \<lparr>items = o_items L,
      query = get_query h (o_query L),
      http_method = o_method L,
      isCommentList = o_isCommentList L,
      listing_link_id = o_link_id L,
      uri = o_uri L,
      more_stub = map_option (More_at h) (o_more L),
      cachedLookahead = map_option (get_array h) (o_cachedLookahead L)\<rparr>"

definition Listing_at :: "'a heap \<Rightarrow> nat \<Rightarrow> 'a Listing" where
  "Listing_at h r = Listing_of h (get_Listing h r)"

text \<open>
  A Listing built from a value: what \<open>_populate\<close> does with a response, all objects
  new.
\<close>

definition store_More :: "More \<Rightarrow> 'a heap \<Rightarrow> 'a heap \<times> nat" where
  "store_More m h =
     (let (h, ids) = new_ids (children m) h
      in new_More \<lparr>m_children = ids, m_link_id = link_id m, m_parent_id = parent_id m\<rparr> h)"

definition store_Listing :: "'a Listing \<Rightarrow> 'a heap \<Rightarrow> 'a heap \<times> nat" where
  "store_Listing L h =
     (let (h, q) = new_query (query L) h;
          (h, m) = (case more_stub L of
                      None \<Rightarrow> (h, None)
                    | Some m \<Rightarrow> (let (h, r) = store_More m h in (h, Some r)));
          (h, la) = (case cachedLookahead L of
                       None \<Rightarrow> (h, None)
                     | Some xs \<Rightarrow> (let (h, r) = new_array xs h in (h, Some r)))
      in new_Listing
           \<lparr>o_items = items L, o_query = q, o_method = http_method L,
            o_isCommentList = isCommentList L, o_link_id = listing_link_id L, o_uri = uri L,
            o_more = m, o_cachedLookahead = la\<rparr> h)"


text \<open>
  \<open>More._clone\<close>: \<open>new More(pick(this, Object.getOwnPropertyNames(this)), this._r)\<close>. The new
  object holds the same \<open>children\<close> array as the original.
\<close>

definition More_clone_st :: "nat \<Rightarrow> 'a heap \<Rightarrow> 'a heap \<times> nat" where
  "More_clone_st r h = new_More (get_More h r) h"

text \<open>
  \<open>Listing._clone\<close>: \<open>clone(properties._query)\<close> and \<open>clone(properties._cachedLookahead)\<close>
  are new objects, \<open>this._more._clone()\<close> is a new \<open>More\<close>, and the constructor copies the
  query once more (\<open>defaultsDeep\<close> into the new Listing) and takes the lookahead array
  and the \<open>More\<close> it is given.
\<close>

definition clone_st :: "nat \<Rightarrow> 'a heap \<Rightarrow> 'a heap \<times> nat" where
  "clone_st l h =
     (let this = get_Listing h l;
          (h, q) = new_query (get_query h (o_query this)) h;
          (h, la) = (case o_cachedLookahead this of
                       None \<Rightarrow> (h, None)
                     | Some a \<Rightarrow> (let (h, r) = new_array (get_array h a) h in (h, Some r)));
          (h, m) = (case o_more this of
                      None \<Rightarrow> (h, None)
                    | Some m \<Rightarrow> (let (h, r) = More_clone_st m h in (h, Some r)));
          (h, q') = new_query (get_query h q) h
      in new_Listing
           \<lparr>o_items = o_items this, o_query = q', o_method = o_method this,
            o_isCommentList = o_isCommentList this, o_link_id = o_link_id this,
            o_uri = o_uri this, o_more = m, o_cachedLookahead = la\<rparr> h)"

text \<open>\<open>Listing._empty\<close> on the Listing at \<open>l\<close>.\<close>

definition empty_st :: "nat \<Rightarrow> 'a heap \<Rightarrow> 'a heap" where
  "empty_st l h = set_Listing l ((get_Listing h l)\<lparr>o_items := []\<rparr>) h"

text \<open>
  The callback of \<open>_fetchMoreRegular\<close> on the store, up to the recursive call, in three
  parts: the page is put before or after the items of the clone and the cursors are
  set; for a comment list the clone gets a \<open>More\<close> (its own, else the one of the response,
  else \<open>emptyChildren\<close>, the same object in each case) and the items past the amount \<open>n\<close> are cut
  off and kept in a new lookahead array.
\<close>

definition merge_items_st :: "nat \<Rightarrow> nat \<Rightarrow> 'a heap \<Rightarrow> 'a heap" where
  "merge_items_st cloned response h =
     (let c = get_Listing h cloned;
          q = get_query h (o_query c);
          rs = get_Listing h response;
          rq = get_query h (o_query rs)
      in if truthy (before q)
         then set_query (o_query c) (q\<lparr>before := before rq, after := Null\<rparr>)
                (set_Listing cloned (c\<lparr>o_items := o_items rs @ o_items c\<rparr>) h)
         else set_query (o_query c) (q\<lparr>before := Null, after := after rq\<rparr>)
                (set_Listing cloned (c\<lparr>o_items := o_items c @ o_items rs\<rparr>) h))"

definition keep_surplus_st :: "nat \<Rightarrow> nat \<Rightarrow> jsnum \<Rightarrow> 'a heap \<Rightarrow> 'a heap" where
  "keep_surplus_st cloned response n h =
     (let c = get_Listing h cloned;
          rs = get_Listing h response;
          c = c\<lparr>o_more :=
                 (case o_more c of
                    Some m \<Rightarrow> Some m
                  | None \<Rightarrow> (case o_more rs of
                               Some m \<Rightarrow> Some m
                             | None \<Rightarrow> Some (emptyChildren_ref h)))\<rparr>;
          h = set_Listing cloned c h
      in if len_gt (length (o_items rs)) n
         then (let (h, la) = new_array (slice_from n (o_items c)) h
               in set_Listing cloned
                    (c\<lparr>o_items := keep_before n (o_items c),
                       o_cachedLookahead := Some la\<rparr>) h)
         else h)"

definition merge_page_st :: "nat \<Rightarrow> parsedOptions \<Rightarrow> nat \<Rightarrow> 'a heap \<Rightarrow> 'a heap \<times> nat" where
  "merge_page_st l p response h =
     (let (h, cloned) = clone_st l h;
          h = (if \<not> p_append p then empty_st cloned h else h);
          h = merge_items_st cloned response h;
          h = (if o_isCommentList (get_Listing h l)
               then keep_surplus_st cloned response (p_amount p) h else h)
      in (h, cloned))"


text \<open>
  A run on the store returns its outcome (the reference of the new Listing when it
  resolves), the store and the log; the store is returned also when the call rejects
  or is cut off. \<open>fetchMoreRegular_st\<close>, \<open>fetchMoreComments_st\<close> and \<open>fetchMore_st\<close> follow
  \<open>_fetchMoreRegular\<close>, \<open>_fetchMoreComments\<close> and \<open>fetchMore\<close> as the functions on values
  above do. Reading the \<open>_cachedLookahead\<close> or the \<open>_more\<close> of a clone that has none is
  a \<open>TypeError\<close>.
\<close>

type_synonym 'a run_st = "(error + nat) option \<times> 'a heap \<times> event list"

definition fetchMoreRegular_st ::
  "(nat \<Rightarrow> fetch_arg \<Rightarrow> 'a heap \<Rightarrow> event list \<Rightarrow> 'a run_st) \<Rightarrow>
   nat \<Rightarrow> parsedOptions \<Rightarrow> 'a heap \<Rightarrow> event list \<Rightarrow> 'a run_st"
where
  "fetchMoreRegular_st again l p h lg =
     (let req = page_request (Listing_at h l) (p_amount p);
          lg1 = lg @ [Page req]
      in case oauthRequest_no_receiver req of
           Inl e \<Rightarrow> (Some (Inl e), h, lg1)
         | Inr response \<Rightarrow>
             (let (h, r) = store_Listing response h;
                  (h, cloned) = merge_page_st l p r h
              in again cloned
                   (Options \<lparr>amount = Number (minus_len (p_amount p) (length (items response))),
                             append = Some True,
                             skipReplies = Some (p_skipReplies p)\<rparr>)
                   h lg1))"

definition fetchMoreComments_st ::
  "'a env \<Rightarrow> nat \<Rightarrow> nat \<Rightarrow> parsedOptions \<Rightarrow> 'a heap \<Rightarrow> event list \<Rightarrow> 'a run_st"
where
  "fetchMoreComments_st E l m p h lg =
     (case More_fetchMore E (More_at h m) (p_amount p) (p_skipReplies p) 0 lg of
        (None, lg') \<Rightarrow> (None, h, lg')
      | (Some (Inl e), lg') \<Rightarrow> (Some (Inl e), h, lg')
      | (Some (Inr moreComments), lg') \<Rightarrow>
          (let (h, cloned) = clone_st l h;
               h = (if \<not> p_append p then empty_st cloned h else h);
               c = get_Listing h cloned;
               h = set_Listing cloned (c\<lparr>o_items := o_items c @ moreComments\<rparr>) h
           in case o_more c of
                None \<Rightarrow> (Some (Inl TypeError), h, lg')
              | Some cm \<Rightarrow>
                  (let stub = get_More h cm;
                       (h, ids) = new_ids (slice_from (p_amount p) (get_ids h (m_children stub))) h
                   in (Some (Inr cloned), set_More cm (stub\<lparr>m_children := ids\<rparr>) h, lg'))))"

primrec fetchMore_st ::
  "nat \<Rightarrow> 'a env \<Rightarrow> nat \<Rightarrow> fetch_arg \<Rightarrow> 'a heap \<Rightarrow> event list \<Rightarrow> 'a run_st"
where
  "fetchMore_st 0 E l arg h lg = (None, h, lg)"
| "fetchMore_st (Suc k) E l arg h lg =
     (case parse_options arg of
        Inl e \<Rightarrow> (Some (Inl e), h, lg)
      | Inr p \<Rightarrow>
          if le_zero (p_amount p) \<or> isFinished (Listing_at h l)
          then (let (h, cloned) = clone_st l h
                in (promiseWrap E (Some (Inr cloned)),
                    (if p_append p then h else empty_st cloned h), lg))
          else
            (case o_cachedLookahead (get_Listing h l) of
               Some a \<Rightarrow>
                 (let (h, cloned) = clone_st l h;
                      c = get_Listing h cloned
                  in case o_cachedLookahead c of
                       None \<Rightarrow> (Some (Inl TypeError), h, lg)
                     | Some la \<Rightarrow>
                         (let buf = get_array h la;
                              n = delete_count (p_amount p) (length buf);
                              h = set_array la (drop n buf) h;
                              h = set_Listing cloned (c\<lparr>o_items := o_items c @ take n buf\<rparr>) h
                          in fetchMore_st k E cloned
                               (BareNumber (plus_len (minus_len (p_amount p)
                                                        (length (o_items (get_Listing h cloned))))
                                              (length (o_items (get_Listing h l)))))
                               h lg))
             | None \<Rightarrow>
                 (case (case o_more (get_Listing h l) of
                          Some m \<Rightarrow> fetchMoreComments_st E l m p h lg
                        | None \<Rightarrow> fetchMoreRegular_st (fetchMore_st k E) l p h lg) of
                    (outcome, h, lg') \<Rightarrow> (promiseWrap E outcome, h, lg'))))"

definition fetchAll_st ::
  "nat \<Rightarrow> 'a env \<Rightarrow> nat \<Rightarrow> options option \<Rightarrow> 'a heap \<Rightarrow> event list \<Rightarrow> 'a run_st"
where
  "fetchAll_st k E l opts h lg =
     fetchMore_st k E l
       (Options \<lparr>amount = Number PosInf,
                 append = (case opts of None \<Rightarrow> None | Some ops \<Rightarrow> append ops),
                 skipReplies = (case opts of None \<Rightarrow> None | Some ops \<Rightarrow> skipReplies ops)\<rparr>)
       h lg"


text \<open>
  \<open>preserves h h'\<close>: every object of \<open>h\<close> is the same in \<open>h'\<close>. \<open>allocated h l\<close>: the Listing
  at \<open>l\<close> and the objects it refers to were allocated in \<open>h\<close>.
\<close>

definition preserves :: "'a heap \<Rightarrow> 'a heap \<Rightarrow> bool" where
  "preserves h h' \<longleftrightarrow>
     next_ref h \<le> next_ref h' \<and> emptyChildren_ref h' = emptyChildren_ref h \<and>
     (\<forall>r<next_ref h.
        listings h' r = listings h r \<and> queries h' r = queries h r \<and>
        arrays h' r = arrays h r \<and> mores h' r = mores h r \<and>
        id_arrays h' r = id_arrays h r)"

definition allocated_More :: "'a heap \<Rightarrow> nat \<Rightarrow> bool" where
  "allocated_More h m \<longleftrightarrow> m < next_ref h \<and> m_children (get_More h m) < next_ref h"

definition inside :: "'a heap \<Rightarrow> 'a ListingObj \<Rightarrow> bool" where
  "inside h L \<longleftrightarrow>
     o_query L < next_ref h \<and>
     (case o_more L of None \<Rightarrow> True | Some m \<Rightarrow> allocated_More h m) \<and>
     (case o_cachedLookahead L of None \<Rightarrow> True | Some a \<Rightarrow> a < next_ref h)"

definition allocated :: "'a heap \<Rightarrow> nat \<Rightarrow> bool" where
  "allocated h l \<longleftrightarrow> l < next_ref h \<and> inside h (get_Listing h l)"

text \<open>The Listing at \<open>c\<close> holds a query, a \<open>More\<close> and a lookahead array allocated after \<open>h\<close>.\<close>

definition owns :: "'a heap \<Rightarrow> 'a ListingObj \<Rightarrow> bool" where
  "owns h c \<longleftrightarrow>
     next_ref h \<le> o_query c \<and>
     (case o_more c of None \<Rightarrow> True | Some m \<Rightarrow> next_ref h \<le> m) \<and>
     (case o_cachedLookahead c of None \<Rightarrow> True | Some a \<Rightarrow> next_ref h \<le> a)"

definition heap_of :: "'a run_st \<Rightarrow> 'a heap" where
  "heap_of r = fst (snd r)"

text \<open>
  The outcome of a run with the returned reference replaced by the Listing it points to,
  and the log of a run. \<open>valid h\<close>: the module-level \<open>emptyChildren\<close> is in the store.
\<close>

definition result_of :: "'a run_st \<Rightarrow> (error + 'a Listing) option" where
  "result_of r = map_option (map_sum (\<lambda>e. e) (Listing_at (heap_of r))) (fst r)"

definition valid :: "'a heap \<Rightarrow> bool" where
  "valid h \<longleftrightarrow>
     allocated_More h (emptyChildren_ref h) \<and> More_at h (emptyChildren_ref h) = emptyChildren"

definition log_of :: "'a run_st \<Rightarrow> event list" where
  "log_of r = snd (snd r)"


section \<open>The request pipeline (request_handler.ts)\<close>

text \<open>
  Timestamps are JavaScript numbers: \<open>_nextRequestTimestamp\<close> starts at \<open>-Infinity\<close>, and
  a property that is \<open>null\<close> counts as 0 in arithmetic and comparisons.
\<close>

fun num_of :: "jsnum option \<Rightarrow> jsnum" where
  "num_of None = Fin 0"
| "num_of (Some x) = x"

text \<open>\<open>x < y\<close>.\<close>

fun js_less :: "jsnum \<Rightarrow> jsnum \<Rightarrow> bool" where
  "js_less NaN y = False"
| "js_less x NaN = False"
| "js_less PosInf y = False"
| "js_less x NegInf = False"
| "js_less NegInf y = True"
| "js_less x PosInf = True"
| "js_less (Fin a) (Fin b) = (a < b)"

text \<open>\<open>x - t\<close> and \<open>x + t\<close> for a finite \<open>t\<close>, and \<open>Math.max(t, x)\<close>.\<close>

fun js_minus :: "jsnum \<Rightarrow> int \<Rightarrow> jsnum" where
  "js_minus (Fin a) t = Fin (a - of_int t)"
| "js_minus x t = x"

fun js_plus :: "jsnum \<Rightarrow> int \<Rightarrow> jsnum" where
  "js_plus (Fin a) t = Fin (a + of_int t)"
| "js_plus x t = x"

fun math_max :: "int \<Rightarrow> jsnum \<Rightarrow> jsnum" where
  "math_max t NaN = NaN"
| "math_max t NegInf = Fin (of_int t)"
| "math_max t (Fin a) = Fin (max (of_int t) a)"
| "math_max t PosInf = PosInf"

text \<open>The configuration (create_config.ts), as far as the pipeline reads it.\<close>

record config =
  requestDelay :: int
  continueAfterRatelimitError :: bool
  retryErrorCodes :: "nat list"
  maxRetryAttempts :: nat

definition createConfig :: config where
  "createConfig = \<lparr>requestDelay = 0, continueAfterRatelimitError = False,
                    retryErrorCodes = [502, 503, 504, 522], maxRetryAttempts = 3\<rparr>"

definition IDEMPOTENT_HTTP_VERBS :: "verb list" where
  "IDEMPOTENT_HTTP_VERBS = [Delete, Get, Head, Put]"

text \<open>
  What \<open>rawRequest\<close> is handed: an authenticated request with its bearer token, or a
  token request with its grant.
\<close>

datatype grant = RefreshGrant string | PasswordGrant string string

datatype wire = OAuth request "string option" | TokenRequest grant

text \<open>
  The state of a requester: its tokens and credentials, the rate-limit window, the
  clock \<open>Date.now()\<close> reads, and the requests handed to \<open>rawRequest\<close> so far, each with
  the \<open>attempts\<close> argument of the \<open>oauthRequest\<close> call that issued it.
\<close>

record Snoowrap =
  accessToken :: "string option"
  tokenExpiration :: "jsnum option"
  refreshToken :: "string option"
  username :: "string option"
  password :: "string option"
  ratelimitRemaining :: "int option"
  ratelimitExpiration :: "jsnum option"
  nextRequestTimestamp :: jsnum
  scope :: "string list option"
  config :: config
  now :: int
  sent :: "(nat \<times> wire) list"

text \<open>
  The rejections of the pipeline: an answer with a status outside 200..299, with the
  method of the request it answers (the only error that carries a \<open>response\<close>); no
  answer at all; the rate limit; an error reported by the token endpoint; the
  \<open>TypeError\<close> of \<open>tokenInfo.scope.split\<close> on a token answer without a scope; and the
  \<open>TypeError\<close> of reading \<open>e.response.request\<close> from an error that carries no response.
\<close>

datatype failure =
    StatusCodeError nat verb
  | RequestFailed
  | RateLimitError jsnum
  | GrantError
  | ScopeTypeError
  | NoResponseTypeError

text \<open>The \<open>statusCode\<close> property of an error, when it has one.\<close>

fun statusCode :: "failure \<Rightarrow> nat option" where
  "statusCode (StatusCodeError c m) = Some c"
| "statusCode _ = None"

record tokenInfo =
  access_token :: "string option"
  expires_in :: "int option"
  token_scope :: "string list option"
  token_error :: "string option"
  error_description :: "string option"

text \<open>
  An answer of the transport: a response with its status code, the rate-limit headers
  \<open>x-ratelimit-remaining\<close> and \<open>x-ratelimit-reset\<close> when present (the number of requests
  left, kept as a whole number, and the seconds to the reset), and its body; or no
  response at all. Either takes some time.
\<close>

datatype 'b reply = Reply nat "(int \<times> int) option" 'b int | NoReply int

text \<open>
  The network: the answers to authenticated requests and to token requests, each
  depending on what has been sent before; the value of \<open>Math.random() * 1000\<close>; and
  \<open>_populate\<close>, taken as a function of the body.
\<close>

record ('b, 'v) network =
  transport :: "(nat \<times> wire) list \<Rightarrow> request \<Rightarrow> string option \<Rightarrow> 'b reply"
  token_endpoint :: "(nat \<times> wire) list \<Rightarrow> grant \<Rightarrow> tokenInfo reply"
  random_ms :: "(nat \<times> wire) list \<Rightarrow> int"
  populate :: "'b \<Rightarrow> 'v"

text \<open>
  \<open>delay(ms)\<close>: a timer fires once \<open>ms\<close> milliseconds have passed, at once when \<open>ms\<close> is not
  positive; the clock counts whole milliseconds.
\<close>

fun delay :: "jsnum \<Rightarrow> Snoowrap \<Rightarrow> Snoowrap" where
  "delay (Fin ms) st = st\<lparr>now := now st + max 0 \<lceil>ms\<rceil>\<rparr>"
| "delay x st = st"

definition awaitRatelimit :: "Snoowrap \<Rightarrow> failure + Snoowrap" where
  "awaitRatelimit st =
     (if (case ratelimitRemaining st of None \<Rightarrow> True | Some r \<Rightarrow> r < 1) \<and>
         js_less (Fin (of_int (now st))) (num_of (ratelimitExpiration st))
      then (let timeUntilExpiry = js_minus (num_of (ratelimitExpiration st)) (now st)
            in if continueAfterRatelimitError (config st)
               then Inr (delay timeUntilExpiry st)
               else Inl (RateLimitError timeUntilExpiry))
      else Inr st)"

definition awaitRequestDelay :: "Snoowrap \<Rightarrow> Snoowrap" where
  "awaitRequestDelay st =
     (let waitTime = js_minus (nextRequestTimestamp st) (now st);
          st = st\<lparr>nextRequestTimestamp :=
                   js_plus (math_max (now st) (nextRequestTimestamp st)) (requestDelay (config st))\<rparr>
      in delay waitTime st)"

definition awaitExponentialBackoff :: "('b, 'v) network \<Rightarrow> nat \<Rightarrow> Snoowrap \<Rightarrow> Snoowrap" where
  "awaitExponentialBackoff N attempts st =
     (if attempts = 1 then st
      else delay (Fin ((if attempts = 0 then 500 else 2 ^ (attempts - 1) * 1000)
                       + of_int (random_ms N (sent st) - 300))) st)"

text \<open>A string property is truthy when it is neither \<open>null\<close> nor empty.\<close>

fun present :: "string option \<Rightarrow> bool" where
  "present None = False"
| "present (Some s) = (s \<noteq> [])"

definition updateAccessToken ::
  "('b, 'v) network \<Rightarrow> nat \<Rightarrow> Snoowrap \<Rightarrow> (failure + string option) \<times> Snoowrap"
where
  "updateAccessToken N attempts st =
     (if (\<not> present (accessToken st) \<or> js_less (num_of (tokenExpiration st)) (Fin (of_int (now st)))) \<and>
         (present (refreshToken st) \<or> (present (username st) \<and> present (password st)))
      then
        (let g = (if present (refreshToken st) then RefreshGrant (the (refreshToken st))
                  else PasswordGrant (the (username st)) (the (password st)));
             st1 = st\<lparr>sent := sent st @ [(attempts, TokenRequest g)]\<rparr>
         in case token_endpoint N (sent st) g of
              NoReply t \<Rightarrow> (Inl RequestFailed, st1\<lparr>now := now st1 + t\<rparr>)
            | Reply status headers info t \<Rightarrow>
                (let st2 = st1\<lparr>now := now st1 + t\<rparr>
                 in if \<not> (200 \<le> status \<and> status < 300)
                    then (Inl (StatusCodeError status Post), st2)
                    else
                      (let st3 = st2\<lparr>accessToken := access_token info,
                                       tokenExpiration :=
                                         Some (case expires_in info of
                                                 None \<Rightarrow> NaN
                                               | Some s \<Rightarrow> Fin (of_int (now st2 + s * 1000)))\<rparr>
                       in if token_error info \<noteq> None \<or> error_description info \<noteq> None
                          then (Inl GrantError, st3)
                          else if token_scope info = None then (Inl ScopeTypeError, st3)
                          else (Inr (accessToken st3), st3\<lparr>scope := token_scope info\<rparr>))))
      else (Inr (accessToken st), st))"

text \<open>
  One pass through the promise chain of \<open>oauthRequest\<close>, up to the two \<open>catch\<close> handlers:
  the waits, the token, the request itself with the capture of the rate-limit headers,
  and \<open>_populate\<close>. A status outside 200..299 rejects with the status code and the
  method of the request that was sent.
\<close>

definition attempt ::
  "('b, 'v) network \<Rightarrow> Snoowrap \<Rightarrow> request \<Rightarrow> nat \<Rightarrow> (failure + 'v) \<times> Snoowrap"
where
  "attempt N st options attempts =
     (case awaitRatelimit st of
        Inl e \<Rightarrow> (Inl e, st)
      | Inr st \<Rightarrow>
          (let st = awaitRequestDelay st;
               st = awaitExponentialBackoff N attempts st
           in case updateAccessToken N attempts st of
                (Inl e, st) \<Rightarrow> (Inl e, st)
              | (Inr token, st) \<Rightarrow>
                  (let st1 = st\<lparr>sent := sent st @ [(attempts, OAuth options token)]\<rparr>
                   in case transport N (sent st) options token of
                        NoReply t \<Rightarrow> (Inl RequestFailed, st1\<lparr>now := now st1 + t\<rparr>)
                      | Reply status headers body t \<Rightarrow>
                          (let st2 = st1\<lparr>now := now st1 + t\<rparr>;
                               st2 = (case headers of
                                        None \<Rightarrow> st2
                                      | Some (remaining, reset) \<Rightarrow>
                                          st2\<lparr>ratelimitRemaining := Some remaining,
                                               ratelimitExpiration := Some (Fin (of_int (now st2 + reset * 1000)))\<rparr>)
                           in if 200 \<le> status \<and> status < 300
                              then (Inr (populate N body), st2)
                              else (Inl (StatusCodeError status (req_method options)), st2)))))"

text \<open>
  The first \<open>catch\<close> is written \<open>.catch(...codes.map(c => ({statusCode: c})), handler)\<close>,
  the form of a promise library whose \<open>catch\<close> takes filters before the handler. The
  chain starts from \<open>Promise.resolve()\<close>, and the \<open>catch\<close> of a native promise reads its
  first argument only. With retry codes configured that argument is the object
  \<open>{statusCode: code}\<close>, which is not callable: the rejection passes on and the handler
  never runs. With \<open>retryErrorCodes\<close> empty the first argument is the handler, which then
  takes every rejection: it reads \<open>e.response.request.method\<close>, rethrows when that
  method is not idempotent or the attempts are used up, and otherwise calls
  \<open>oauthRequest\<close> with \<open>attempts + 1\<close>. \<open>codes\<close> is \<open>retryErrorCodes\<close> as read when the chain
  is built.
\<close>

fun failed_method :: "failure \<Rightarrow> verb option" where
  "failed_method (StatusCodeError c m) = Some m"
| "failed_method _ = None"

definition catch_first ::
  "nat list \<Rightarrow> (Snoowrap \<Rightarrow> request \<Rightarrow> nat \<Rightarrow> (failure + 'v) option \<times> Snoowrap) \<Rightarrow>
   request \<Rightarrow> nat \<Rightarrow> failure \<Rightarrow> Snoowrap \<Rightarrow> (failure + 'v) option \<times> Snoowrap"
where
  "catch_first codes again options attempts e st =
     (if codes \<noteq> [] then (Some (Inl e), st)
      else
        (case failed_method e of
           None \<Rightarrow> (Some (Inl NoResponseTypeError), st)
         | Some m \<Rightarrow>
             if m \<notin> set IDEMPOTENT_HTTP_VERBS \<or> attempts \<ge> maxRetryAttempts (config st)
             then (Some (Inl e), st)
             else again st options (attempts + 1)))"

text \<open>
  The second \<open>catch\<close>: on a 401 with a cached token whose expiry is less than
  \<open>MAX_TOKEN_LATENCY\<close> away it forgets the token and calls \<open>oauthRequest\<close> with the same
  \<open>attempts\<close>; every other error is rethrown.
\<close>

definition token_stale :: "Snoowrap \<Rightarrow> bool" where
  "token_stale st =
     (present (accessToken st) \<and>
      js_less (js_minus (num_of (tokenExpiration st)) (now st)) (Fin (of_int MAX_TOKEN_LATENCY)))"

definition catch_401 ::
  "(Snoowrap \<Rightarrow> request \<Rightarrow> nat \<Rightarrow> (failure + 'v) option \<times> Snoowrap) \<Rightarrow>
   request \<Rightarrow> nat \<Rightarrow> (failure + 'v) option \<times> Snoowrap \<Rightarrow> (failure + 'v) option \<times> Snoowrap"
where
  "catch_401 again options attempts r =
     (case r of
        (Some (Inl e), st) \<Rightarrow>
          if statusCode e = Some 401 \<and> token_stale st
          then again (st\<lparr>accessToken := None, tokenExpiration := None\<rparr>) options attempts
          else (Some (Inl e), st)
      | _ \<Rightarrow> r)"

text \<open>
  \<open>oauthRequest(options, attempts)\<close> with a receiver. The two handlers may call it again without bound
  (a server that keeps handing out short-lived tokens and answering 401), so the nesting
  of calls is bounded by a count; \<open>None\<close> is the outcome of a call cut off there.
\<close>

primrec oauthRequest ::
  "nat \<Rightarrow> ('b, 'v) network \<Rightarrow> Snoowrap \<Rightarrow> request \<Rightarrow> nat \<Rightarrow> (failure + 'v) option \<times> Snoowrap"
where
  "oauthRequest 0 N st options attempts = (None, st)"
| "oauthRequest (Suc k) N st options attempts =
     catch_401 (oauthRequest k N) options attempts
       (case attempt N st options attempts of
          (Inr v, st1) \<Rightarrow> (Some (Inr v), st1)
        | (Inl e, st1) \<Rightarrow>
            catch_first (retryErrorCodes (config st)) (oauthRequest k N) options attempts e st1)"


section \<open>Example data\<close>

text \<open>A finished Listing of two items: it has a URI and both cursors are \<open>null\<close>.\<close>

definition finished_example :: "nat Listing" where
  "finished_example =
     \<lparr>items = [1, 2],
      query = \<lparr>before = Null, after = Null, limit = None, params = []\<rparr>,
      http_method = Get, isCommentList = False, listing_link_id = None,
      uri = Some ''r/test/new'', more_stub = None, cachedLookahead = None\<rparr>"

text \<open>
  A requester with \<open>proxies\<close> off whose requests are all rejected, and whose tree strategy
  never settles.
\<close>

definition failing_env :: "nat env" where
  "failing_env = \<lparr>proxies = False, srv = (\<lambda>lg req. Inl (RequestError 500)),
                  tree = (\<lambda>m n i lg. (None, []))\<rparr>"

text \<open>
  A requester with \<open>proxies\<close> off whose bulk-info requests are answered with one item per
  requested identifier, in order: the item is the length of the fullname. The same
  with the configuration that \<open>createConfig\<close> gives, \<open>proxies\<close> on.
\<close>

definition request_ids :: "request \<Rightarrow> string list" where
  "request_ids r = concat (map (\<lambda>(k, v). case v of PIds ids \<Rightarrow> ids | _ \<Rightarrow> []) (params (req_qs r)))"

definition listing_of :: "'a list \<Rightarrow> 'a Listing" where
  "listing_of xs =
     \<lparr>items = xs,
      query = \<lparr>before = Null, after = Null, limit = None, params = []\<rparr>,
      http_method = Get, isCommentList = False, listing_link_id = None,
      uri = Some ''api/info'', more_stub = None, cachedLookahead = None\<rparr>"

definition echo_env :: "nat env" where
  "echo_env = \<lparr>proxies = False,
               srv = (\<lambda>lg req. Inr (listing_of (map length (request_ids req)))),
               tree = (\<lambda>m n i lg. (None, []))\<rparr>"

definition default_env :: "nat env" where
  "default_env = echo_env\<lparr>proxies := True\<rparr>"

definition stub_example :: More where
  "stub_example = \<lparr>children = [''a'', ''bc'', ''def''], link_id = Some ''t3_x'', parent_id = None\<rparr>"

text \<open>A requester with \<open>proxies\<close> off whose requests are answered with the page \<open>[7, 8]\<close>.\<close>

definition two_items_env :: "nat env" where
  "two_items_env = \<lparr>proxies = False, srv = (\<lambda>lg req. Inr (listing_of [7, 8])),
                    tree = (\<lambda>m n i lg. (None, []))\<rparr>"

text \<open>
  A Listing that has not been fetched yet, as \<open>_getListing\<close> builds it for
  \<open>r/test/new\<close>, and a Listing of two items with an \<open>after\<close> cursor, as \<open>_get\<close> resolves
  it from a first page of the same URI: \<open>_setUri\<close> has stored the path and merged the
  query string of the request into \<open>_query\<close>.
\<close>

definition unfetched_example :: "nat Listing" where
  "unfetched_example =
     \<lparr>items = [],
      query = \<lparr>before = Undefined, after = Undefined, limit = None, params = [(''count'', PNumber 9999)]\<rparr>,
      http_method = Get, isCommentList = False, listing_link_id = None,
      uri = Some ''r/test/new'', more_stub = None, cachedLookahead = None\<rparr>"

definition paged_example :: "nat Listing" where
  "paged_example =
     \<lparr>items = [1, 2],
      query = \<lparr>before = Null, after = Token ''t3_b'', limit = None,
               params = [(''raw_json'', PString ''1''), (''count'', PString ''9999'')]\<rparr>,
      http_method = Get, isCommentList = False, listing_link_id = None,
      uri = Some ''/r/test/new'', more_stub = None, cachedLookahead = None\<rparr>"

text \<open>
  A comment Listing with three items in its lookahead buffer, and a Listing that is
  not a comment list with the same buffer (a buffer that only the constructor option
  \<open>_cachedLookahead\<close> can give it).
\<close>

definition lookahead_example :: "nat Listing" where
  "lookahead_example =
     \<lparr>items = [1],
      query = \<lparr>before = Null, after = Token ''t1_z'', limit = None, params = []\<rparr>,
      http_method = Get, isCommentList = True, listing_link_id = None,
      uri = Some ''comments/abc'',
      more_stub = Some \<lparr>children = [''q''], link_id = None, parent_id = None\<rparr>,
      cachedLookahead = Some [4, 5, 6]\<rparr>"


text \<open>
  A requester holding the token \<open>tok\<close>, which expires 8 seconds from now, and a refresh
  token, with the configuration of \<open>createConfig\<close>; and the same with \<open>retryErrorCodes\<close>
  set to the empty array.
\<close>

definition token_state :: Snoowrap where
  "token_state =
     \<lparr>accessToken = Some ''tok'', tokenExpiration = Some (Fin 9000), refreshToken = Some ''rt'',
      username = None, password = None, ratelimitRemaining = None, ratelimitExpiration = None,
      nextRequestTimestamp = NegInf, scope = None, config = createConfig, now = 1000, sent = []\<rparr>"

definition no_codes_state :: Snoowrap where
  "no_codes_state = token_state\<lparr>config := createConfig\<lparr>retryErrorCodes := []\<rparr>\<rparr>"

definition about_request :: "verb \<Rightarrow> request" where
  "about_request m =
     \<lparr>req_uri = Some ''r/test/about'',
      req_qs = \<lparr>before = Undefined, after = Undefined, limit = None, params = []\<rparr>,
      req_method = m\<rparr>"

definition fresh_token :: tokenInfo where
  "fresh_token = \<lparr>access_token = Some ''tok2'', expires_in = Some 3600,
                   token_scope = Some [''read''], token_error = None, error_description = None\<rparr>"

text \<open>
  Networks: one that answers every request with 503, and one that answers the first
  request with the given status and the rest with 200. Each answer takes 10 ms; the
  token endpoint hands out \<open>tok2\<close>.
\<close>

definition unavailable :: "(unit, unit) network" where
  "unavailable =
     \<lparr>transport = (\<lambda>h r t. Reply 503 None () 10),
      token_endpoint = (\<lambda>h g. Reply 200 None fresh_token 5),
      random_ms = (\<lambda>h. 300),
      populate = (\<lambda>b. b)\<rparr>"

definition failing_once :: "nat \<Rightarrow> (unit, unit) network" where
  "failing_once status =
     \<lparr>transport = (\<lambda>h r t. if h = [] then Reply status None () 10 else Reply 200 None () 10),
      token_endpoint = (\<lambda>h g. Reply 200 None fresh_token 5),
      random_ms = (\<lambda>h. 300),
      populate = (\<lambda>b. b)\<rparr>"

text \<open>
  A store holding only \<open>emptyChildren\<close>; the Listing with a lookahead buffer and a
  comment Listing with a stub of three identifiers, each built in that store.
\<close>

definition initial_heap :: "nat heap" where
  "initial_heap =
     \<lparr>listings = Map.empty, queries = Map.empty, arrays = Map.empty,
      mores = [1 \<mapsto> \<lparr>m_children = 0, m_link_id = None, m_parent_id = None\<rparr>],
      id_arrays = [0 \<mapsto> []], next_ref = 2, emptyChildren_ref = 1\<rparr>"

definition lookahead_heap :: "nat heap" where
  "lookahead_heap = fst (store_Listing lookahead_example initial_heap)"

definition lookahead_ref :: nat where
  "lookahead_ref = snd (store_Listing lookahead_example initial_heap)"

definition stub_listing :: "nat Listing" where
  "stub_listing =
     \<lparr>items = [1],
      query = \<lparr>before = Undefined, after = Undefined, limit = None, params = []\<rparr>,
      http_method = Get, isCommentList = True, listing_link_id = None,
      uri = Some ''comments/abc'', more_stub = Some stub_example, cachedLookahead = None\<rparr>"

definition stub_heap :: "nat heap" where
  "stub_heap = fst (store_Listing stub_listing initial_heap)"

definition stub_ref :: nat where
  "stub_ref = snd (store_Listing stub_listing initial_heap)"


section \<open>The statements of the specification, in its own words\<close>

text \<open>
  The specification's reading of "finished": for a comment list, an empty lookahead
  buffer and an attached stub without child references; otherwise no source URI, or
  both cursors \<open>null\<close>.
\<close>

definition finished_spec :: "'a Listing \<Rightarrow> bool" where
  "finished_spec L =
     (if isCommentList L
      then (case cachedLookahead L of None \<Rightarrow> True | Some buf \<Rightarrow> length buf = 0) \<and>
           (case more_stub L of None \<Rightarrow> False | Some m \<Rightarrow> length (children m) = 0)
      else (case uri L of None \<Rightarrow> True | Some u \<Rightarrow> u = []) \<or>
           (before (query L) = Null \<and> after (query L) = Null))"

text \<open>
  The bulk-info batches the specification speaks of: a list cut into chunks of at most
  \<open>k\<close> elements, in order.
\<close>

function chunks :: "nat \<Rightarrow> 'a list \<Rightarrow> 'a list list" where
  "chunks k xs = (if k = 0 \<or> xs = [] then [] else take k xs # chunks k (drop k xs))"
  by pat_completeness auto
termination
  by (relation "measure (\<lambda>(k, xs). length xs)") auto

declare chunks.simps [simp del]

text \<open>An amount of at least \<open>n\<close>.\<close>

fun covers :: "jsnum \<Rightarrow> nat \<Rightarrow> bool" where
  "covers PosInf n = True"
| "covers (Fin q) n = (of_nat n \<le> q)"
| "covers _ n = False"

text \<open>An amount that is a whole number or \<open>Infinity\<close>.\<close>

fun whole :: "jsnum \<Rightarrow> bool" where
  "whole PosInf = True"
| "whole (Fin q) = (of_int \<lfloor>q\<rfloor> = q)"
| "whole _ = False"

text \<open>
  A page merged into the item sequence: at the head when paginating backward (truthy
  \<open>before\<close> cursor), at the tail otherwise; \<open>ap\<close> tells whether the old items are kept.
\<close>

definition merged_items :: "'a Listing \<Rightarrow> bool \<Rightarrow> 'a list \<Rightarrow> 'a list" where
  "merged_items L ap page =
     (let old = (if ap then items L else [])
      in if truthy (before (query L)) then page @ old else old @ page)"

text \<open>
  An \<open>amount\<close> that is missing, not of number type, or \<open>NaN\<close>: \<open>options.amount\<close> of an
  options object, or the argument itself when it is a bare number. A call without an
  argument has no amount either.
\<close>

fun invalid_amount :: "fetch_arg \<Rightarrow> bool" where
  "invalid_amount NoObject = True"
| "invalid_amount (BareNumber n) = (n = NaN)"
| "invalid_amount (Options opts) =
     (case amount opts of Missing \<Rightarrow> True | NotANumber \<Rightarrow> True | Number n \<Rightarrow> n = NaN)"

section \<open>Basic facts\<close>

lemma More_clone_id [simp]: "More_clone m = m"
  by (simp add: More_clone_def)

lemma map_option_More_clone [simp]: "map_option More_clone x = x"
  by (cases x) simp_all

lemma clone_id [simp]: "clone L = L"
  by (simp add: clone_def option.map_ident)

lemma isFinished_clone: "isFinished (clone L) = isFinished L"
  by simp

section \<open>isFinished\<close>

text \<open>
  C2. A Listing is finished exactly when the specification says so: a comment list
  when its lookahead buffer is empty and its attached stub has no children; any other
  Listing when it has no source URI or both query cursors are \<open>null\<close>. A Listing with a
  URI whose cursors are both \<open>undefined\<close> is not finished.
\<close>

theorem isFinished_iff_spec:
  "isFinished L = finished_spec L \<and>
   \<not> isFinished (L\<lparr>isCommentList := False, uri := Some (c # cs),
                    query := (query L)\<lparr>before := Undefined, after := Undefined\<rparr>\<rparr>)"
proof
  show "isFinished L = finished_spec L"
  proof (cases "isCommentList L")
    case True
    then show ?thesis
      by (cases "cachedLookahead L"; cases "more_stub L")
         (simp_all add: isFinished_def finished_spec_def)
  next
    case False
    then show ?thesis
      by (cases "uri L") (auto simp: isFinished_def finished_spec_def)
  qed
next
  show "\<not> isFinished (L\<lparr>isCommentList := False, uri := Some (c # cs),
                    query := (query L)\<lparr>before := Undefined, after := Undefined\<rparr>\<rparr>)"
    by (simp add: isFinished_def)
qed

section \<open>fetchMore: the argument check\<close>

text \<open>
  C10, counterexample. A call without an argument has no amount, and it rejects with a
  \<open>TypeError\<close>, not with \<open>InvalidMethodCallError\<close>: \<open>options.skipReplies\<close> is read before
  the amount is looked at.
\<close>

theorem fetchMore_no_argument_counterexample:
  "invalid_amount NoObject \<and>
   fetchMore (Suc 0) failing_env finished_example NoObject [] = (Some (Inl TypeError), []) \<and>
   fetchMore (Suc 0) failing_env unfetched_example NoObject [] = (Some (Inl TypeError), [])"
  by simp

text \<open>
  C10, as amended. When the argument is an options object or a bare number and the
  amount is missing, not a number or \<open>NaN\<close>, \<open>fetchMore\<close> rejects with
  \<open>InvalidMethodCallError\<close>; when there is no argument at all it rejects with a
  \<open>TypeError\<close>. Either way it does so at its first step, whatever the Listing and the
  requester are: no request is logged, and the outcome does not depend on the Listing.
\<close>

theorem fetchMore_invalid_amount:
  assumes "invalid_amount arg"
  shows "fetchMore (Suc k) E L arg lg =
           (Some (Inl (if arg = NoObject then TypeError else InvalidMethodCallError)), lg)"
proof (cases arg)
  case NoObject
  then show ?thesis by simp
next
  case (BareNumber n)
  with assms show ?thesis by simp
next
  case (Options opts)
  with assms show ?thesis
    by (cases "amount opts") simp_all
qed

theorem fetchMore_invalid_amount_witness:
  "invalid_amount (Options \<lparr>amount = Missing, append = None, skipReplies = None\<rparr>) \<and>
   fetchMore (Suc 0) default_env unfetched_example
     (Options \<lparr>amount = Missing, append = None, skipReplies = None\<rparr>) []
     = (Some (Inl InvalidMethodCallError), []) \<and>
   invalid_amount (BareNumber NaN) \<and>
   fetchMore (Suc 0) default_env finished_example (BareNumber NaN) []
     = (Some (Inl InvalidMethodCallError), []) \<and>
   invalid_amount NoObject \<and>
   fetchMore (Suc 0) default_env unfetched_example NoObject [] = (Some (Inl TypeError), [])"
  using fetchMore_invalid_amount
          [of "Options \<lparr>amount = Missing, append = None, skipReplies = None\<rparr>" 0
              default_env unfetched_example "[]"]
        fetchMore_invalid_amount [of "BareNumber NaN" 0 default_env finished_example "[]"]
        fetchMore_invalid_amount [of NoObject 0 default_env unfetched_example "[]"]
  by simp

section \<open>fetchMore on an exhausted Listing\<close>

text \<open>
  C1, counterexample. On a finished Listing an amount of \<open>NaN\<close> is rejected with
  \<open>InvalidMethodCallError\<close>; and with the configuration of \<open>createConfig\<close> (\<open>proxies\<close> on)
  the amount 1 is rejected with the \<open>TypeError\<close> of \<open>_promiseWrap\<close>. Neither call
  resolves to a copy of the Listing.
\<close>

theorem fetchMore_finished_counterexample:
  "isFinished finished_example \<and>
   fetchMore (Suc 0) echo_env finished_example
     (Options \<lparr>amount = Number NaN, append = Some True, skipReplies = None\<rparr>) []
     = (Some (Inl InvalidMethodCallError), []) \<and>
   proxies default_env \<and>
   fetchMore (Suc 0) default_env finished_example
     (Options \<lparr>amount = Number (Fin 1), append = Some True, skipReplies = None\<rparr>) []
     = (Some (Inl TypeError), [])"
  by (simp add: finished_example_def isFinished_def default_env_def echo_env_def promiseWrap_def)

text \<open>
  C1, as amended. On a finished Listing with an amount other than \<open>NaN\<close>, and on any
  Listing when the amount is at most 0, \<open>fetchMore\<close> settles at its first step and logs
  no request. With \<open>proxies\<close> off it resolves: to a Listing equal to the original when
  \<open>append\<close> is true (or left out, or the argument is a bare number), and to the original
  with its items removed when \<open>append\<close> is false.
\<close>

theorem fetchMore_finished:
  assumes "n \<noteq> NaN" and "isFinished L \<or> le_zero n"
  shows "snd (fetchMore (Suc k) E L (Options \<lparr>amount = Number n, append = ap, skipReplies = sr\<rparr>) lg) = lg \<and>
         snd (fetchMore (Suc k) E L (BareNumber n) lg) = lg \<and>
         fst (fetchMore (Suc k) E L (BareNumber n) lg) \<noteq> None \<and>
         (\<not> proxies E \<longrightarrow>
            (ap \<noteq> Some False \<longrightarrow>
               fetchMore (Suc k) E L (Options \<lparr>amount = Number n, append = ap, skipReplies = sr\<rparr>) lg
                 = (Some (Inr L), lg)) \<and>
            fetchMore (Suc k) E L (BareNumber n) lg = (Some (Inr L), lg) \<and>
            fetchMore (Suc k) E L (Options \<lparr>amount = Number n, append = Some False, skipReplies = sr\<rparr>) lg
              = (Some (Inr (L\<lparr>items := []\<rparr>)), lg))"
proof -
  have fin: "le_zero n \<or> isFinished L"
    using assms(2) by blast
  have lg: "snd (fetchMore (Suc k) E L (Options \<lparr>amount = Number n, append = ap, skipReplies = sr\<rparr>) lg) = lg"
    "snd (fetchMore (Suc k) E L (BareNumber n) lg) = lg"
    "fst (fetchMore (Suc k) E L (BareNumber n) lg) \<noteq> None"
    using assms(1) fin by (auto simp: promiseWrap_def)
  have a: "ap \<noteq> Some False \<Longrightarrow> \<not> proxies E \<Longrightarrow>
        fetchMore (Suc k) E L (Options \<lparr>amount = Number n, append = ap, skipReplies = sr\<rparr>) lg
          = (Some (Inr L), lg)"
    using assms(1) fin by (cases ap) (auto simp: promiseWrap_def)
  have b: "\<not> proxies E \<Longrightarrow> fetchMore (Suc k) E L (BareNumber n) lg = (Some (Inr L), lg)"
    using assms(1) fin by (auto simp: promiseWrap_def)
  have c: "\<not> proxies E \<Longrightarrow>
        fetchMore (Suc k) E L (Options \<lparr>amount = Number n, append = Some False, skipReplies = sr\<rparr>) lg
          = (Some (Inr (L\<lparr>items := []\<rparr>)), lg)"
    using assms(1) fin by (auto simp: empty_items_def promiseWrap_def)
  from lg a b c show ?thesis by blast
qed

theorem fetchMore_finished_witness:
  "Fin 5 \<noteq> NaN \<and> isFinished finished_example \<and> \<not> proxies failing_env \<and>
   fetchMore (Suc 0) failing_env finished_example
     (Options \<lparr>amount = Number (Fin 5), append = Some True, skipReplies = None\<rparr>) []
     = (Some (Inr finished_example), []) \<and>
   fetchMore (Suc 0) failing_env finished_example (BareNumber (Fin 5)) []
     = (Some (Inr finished_example), []) \<and>
   fetchMore (Suc 0) failing_env finished_example
     (Options \<lparr>amount = Number (Fin 5), append = Some False, skipReplies = None\<rparr>) []
     = (Some (Inr (finished_example\<lparr>items := []\<rparr>)), []) \<and>
   le_zero (Fin 0) \<and>
   fetchMore (Suc 0) failing_env unfetched_example (BareNumber (Fin 0)) []
     = (Some (Inr unfetched_example), [])"
proof -
  have a: "Fin 5 \<noteq> NaN" "isFinished finished_example" "\<not> proxies failing_env"
    "Fin 0 \<noteq> NaN" "le_zero (Fin 0)"
    by (simp_all add: finished_example_def isFinished_def failing_env_def)
  from fetchMore_finished [OF a(1), where L = finished_example and ap = "Some True" and k = 0
                             and E = failing_env and sr = None and lg = "[]"]
       fetchMore_finished [OF a(4), where L = unfetched_example and ap = "Some True" and k = 0
                             and E = failing_env and sr = None and lg = "[]"]
       a
  show ?thesis
    by simp
qed

section \<open>Chunks and slices\<close>

lemma chunks_Nil [simp]: "chunks k [] = []"
  by (simp add: chunks.simps)

lemma chunks_Cons: "0 < k \<Longrightarrow> xs \<noteq> [] \<Longrightarrow> chunks k xs = take k xs # chunks k (drop k xs)"
  by (subst chunks.simps) simp

lemma ceil_div_100_step: "0 < (n::nat) \<Longrightarrow> (n + 99) div 100 = Suc ((n - 100 + 99) div 100)"
proof (cases "n \<le> 100")
  case True
  assume "0 < n"
  with True have "(n + 99) div 100 = 1"
    by (intro div_nat_eqI) simp_all
  with True show ?thesis by simp
next
  case False
  then have "n + 99 = (n - 100 + 99) + 100" by simp
  then have "(n + 99) div 100 = (n - 100 + 99) div 100 + 1"
    by (metis div_add_self2 zero_neq_numeral)
  then show ?thesis by simp
qed

lemma length_chunks_100: "length (chunks 100 xs) = (length xs + 99) div 100"
proof (induction "length xs" arbitrary: xs rule: less_induct)
  case less
  show ?case
  proof (cases "xs = []")
    case True
    then show ?thesis by simp
  next
    case False
    then have "length (drop 100 xs) < length xs" by simp
    then have "length (chunks 100 (drop 100 xs)) = (length (drop 100 xs) + 99) div 100"
      by (rule less)
    moreover have "0 < length xs" using False by simp
    ultimately show ?thesis
      using False by (simp add: chunks_Cons ceil_div_100_step)
  qed
qed

lemma concat_chunks: "0 < k \<Longrightarrow> concat (chunks k xs) = xs"
proof (induction "length xs" arbitrary: xs rule: less_induct)
  case less
  show ?case
  proof (cases "xs = []")
    case True
    then show ?thesis by simp
  next
    case False
    with less(2) have "length (drop k xs) < length xs" by simp
    with less have "concat (chunks k (drop k xs)) = drop k xs" by blast
    with False less(2) show ?thesis by (simp add: chunks_Cons)
  qed
qed

lemma chunks_bounds: "0 < k \<Longrightarrow> c \<in> set (chunks k xs) \<Longrightarrow> c \<noteq> [] \<and> length c \<le> k"
proof (induction "length xs" arbitrary: xs rule: less_induct)
  case less
  show ?case
  proof (cases "xs = []")
    case True
    with less(3) show ?thesis by simp
  next
    case False
    with less(2) have lt: "length (drop k xs) < length xs" by simp
    from False less(2,3) have "c = take k xs \<or> c \<in> set (chunks k (drop k xs))"
      by (simp add: chunks_Cons)
    then show ?thesis
    proof
      assume "c = take k xs"
      with False less(2) show ?thesis by simp
    next
      assume "c \<in> set (chunks k (drop k xs))"
      with less(1)[OF lt less(2)] show ?thesis by blast
    qed
  qed
qed

lemma take_eq_min_length:
  assumes "min n (length ys) = min k (length ys)"
  shows "take n ys = take k ys"
proof -
  have "take n ys = take (min n (length ys)) ys"
    by (simp add: min_def)
  also have "\<dots> = take (min k (length ys)) ys"
    using assms by simp
  also have "\<dots> = take k ys"
    by (simp add: min_def)
  finally show ?thesis .
qed


lemma floor_min_100: "\<lfloor>min q (100 :: rat)\<rfloor> = min \<lfloor>q\<rfloor> 100"
  by (simp add: min_def floor_mono) linarith

lemma getNextIdSlice_covered:
  assumes "s < length xs" and "covers amt (length xs - s)"
  shows "getNextIdSlice xs s amt MAX_API_INFO_AMOUNT = take 100 (drop s xs)"
proof (cases amt)
  case (Fin q)
  with assms have q: "of_nat (length xs - s) \<le> q" by simp
  hence fl: "int (length xs - s) \<le> \<lfloor>q\<rfloor>"
    by (simp add: le_floor_iff)
  with assms(1) have pos: "0 < \<lfloor>q\<rfloor>" by linarith
  define j where "j = min \<lfloor>q\<rfloor> 100"
  have j: "0 < j" "int (length xs - s) \<le> j \<or> j = 100" "j \<le> 100"
    using fl pos by (auto simp: j_def min_def)
  have "min q 100 + of_nat s = of_int (\<lfloor>min q 100\<rfloor> + int s) + (min q 100 - of_int \<lfloor>min q 100\<rfloor>)"
    by simp
  have fl2: "\<lfloor>min q 100 + of_nat s\<rfloor> = j + int s"
    unfolding j_def floor_min_100 [symmetric]
    by (metis floor_add_int of_int_of_nat_eq)
  have nonneg: "\<not> min q 100 + of_nat s < 0"
  proof -
    have "0 < q" using pos by linarith
    hence "0 \<le> min q 100" by simp
    thus ?thesis by (simp add: add_nonneg_nonneg not_less)
  qed
  have ti: "to_integer (min q 100 + of_nat s) = j + int s"
    using nonneg fl2 by (simp add: to_integer_def)
  have "min (min (nat (j + int s)) (length xs) - s) (length (drop s xs))
        = min 100 (length (drop s xs))"
    using j assms(1) by (simp add: min_def nat_add_distrib; arith)
  then have "take (min (nat (j + int s)) (length xs) - s) (drop s xs) = take 100 (drop s xs)"
    by (rule take_eq_min_length)
  then show ?thesis
    using Fin j(1) assms(1)
    by (simp add: getNextIdSlice_def slice_def Let_def MAX_API_INFO_AMOUNT_def ti)
next
  case PosInf
  have "take (min (nat (100 + int s)) (length xs) - s) (drop s xs) = take 100 (drop s xs)"
    by (rule take_eq_min_length) (simp add: min_def nat_add_distrib; arith)
  then show ?thesis using PosInf assms(1)
    by (simp add: getNextIdSlice_def slice_def Let_def MAX_API_INFO_AMOUNT_def to_integer_def
          add.commute)
qed (use assms in simp_all)

lemma covers_not_le_zero: "covers amt n \<Longrightarrow> 0 < n \<Longrightarrow> \<not> le_zero amt"
  by (cases amt) auto

lemma covers_minus_len: "covers amt n \<Longrightarrow> k \<le> n \<Longrightarrow> covers (minus_len amt k) (n - k)"
  by (cases amt) (auto simp: of_nat_diff)

lemma More_fetchMore_step:
  assumes "s < length (children m)" and "covers amt (length (children m) - s)"
  defines "ids \<equiv> map t1_prefix (take 100 (drop s (children m)))"
  shows "More_fetchMore E m amt True s lg =
           (case More_fetchMore E m (minus_len amt (length ids)) True (s + length ids)
                   (lg @ [Info (info_request ids)]) of
              (promiseForRemainingItems, lg') \<Rightarrow>
                (join_flatten (map_sum (\<lambda>e. e) items (getListing E lg (info_request ids)))
                   promiseForRemainingItems, lg'))"
    and "ids \<noteq> []"
    and "length (children m) - (s + length ids) < length (children m) - s"
    and "covers (minus_len amt (length ids)) (length (children m) - (s + length ids))"
    and "chunks 100 (map t1_prefix (drop s (children m)))
           = ids # chunks 100 (map t1_prefix (drop (s + length ids) (children m)))"
    and "map t1_prefix (drop s (children m))
           = ids @ map t1_prefix (drop (s + length ids) (children m))"
proof -
  let ?rest = "drop s (children m)"
  have slice: "map t1_prefix (getNextIdSlice (children m) s amt MAX_API_INFO_AMOUNT) = ids"
    unfolding ids_def using assms(1,2) by (simp add: getNextIdSlice_covered)
  show ne: "ids \<noteq> []" using assms(1) by (simp add: ids_def)
  have len: "length ids = min 100 (length (children m) - s)" by (simp add: ids_def)
  have pos: "\<not> le_zero amt"
    using assms(1,2) by (intro covers_not_le_zero[of amt "length (children m) - s"]) simp_all
  show "length (children m) - (s + length ids) < length (children m) - s"
    using assms(1) len by simp
  show "covers (minus_len amt (length ids)) (length (children m) - (s + length ids))"
    using covers_minus_len[OF assms(2), of "length ids"] len by simp
  have drop_eq: "drop (s + length ids) (children m) = drop 100 ?rest"
    by (simp add: len min_def add.commute)
  have ids_eq: "ids = take 100 (map t1_prefix ?rest)"
    by (simp add: ids_def take_map)
  have rest_ne: "map t1_prefix ?rest \<noteq> []" using assms(1) by simp
  have "chunks 100 (map t1_prefix ?rest)
          = take 100 (map t1_prefix ?rest) # chunks 100 (drop 100 (map t1_prefix ?rest))"
    using rest_ne by (simp add: chunks_Cons)
  moreover have "drop 100 (map t1_prefix ?rest) = map t1_prefix (drop (s + length ids) (children m))"
    by (simp only: drop_map drop_eq)
  ultimately show "chunks 100 (map t1_prefix ?rest)
          = ids # chunks 100 (map t1_prefix (drop (s + length ids) (children m)))"
    by (simp only: ids_eq)
  have "ids @ map t1_prefix (drop (s + length ids) (children m))
          = ids @ map t1_prefix (drop 100 ?rest)"
    by (simp only: drop_eq)
  also have "\<dots> = map t1_prefix (take 100 ?rest @ drop 100 ?rest)"
    by (simp only: ids_def map_append)
  finally show "map t1_prefix ?rest = ids @ map t1_prefix (drop (s + length ids) (children m))"
    by (simp only: append_take_drop_id)
  show "More_fetchMore E m amt True s lg =
           (case More_fetchMore E m (minus_len amt (length ids)) True (s + length ids)
                   (lg @ [Info (info_request ids)]) of
              (promiseForRemainingItems, lg') \<Rightarrow>
                (join_flatten (map_sum (\<lambda>e. e) items (getListing E lg (info_request ids)))
                   promiseForRemainingItems, lg'))"
    apply (subst More_fetchMore.simps)
    using assms(1) pos ne
    apply (simp only: slice Let_def)
    apply simp
    done
qed

lemma More_fetchMore_flat_from:
  assumes batch: "\<And>lg ids. map_sum (\<lambda>e. e) items (getListing E lg (info_request ids))
                            = Inr (map resolve ids)"
  shows "covers amt (length (children m) - s) \<Longrightarrow>
         More_fetchMore E m amt True s lg =
           (Some (Inr (map resolve (map t1_prefix (drop s (children m))))),
            lg @ map (\<lambda>c. Info (info_request c)) (chunks 100 (map t1_prefix (drop s (children m)))))"
proof (induction "length (children m) - s" arbitrary: s amt lg rule: less_induct)
  case less
  show ?case
  proof (cases "s < length (children m)")
    case False
    then show ?thesis
      by (subst More_fetchMore.simps) simp
  next
    case True
    define ids where "ids = map t1_prefix (take 100 (drop s (children m)))"
    note st = More_fetchMore_step [OF True less.prems, folded ids_def]
    have ih: "More_fetchMore E m (minus_len amt (length ids)) True (s + length ids)
                (lg @ [Info (info_request ids)]) =
              (Some (Inr (map resolve (map t1_prefix (drop (s + length ids) (children m))))),
               (lg @ [Info (info_request ids)]) @
               map (\<lambda>c. Info (info_request c))
                 (chunks 100 (map t1_prefix (drop (s + length ids) (children m)))))"
      using less.hyps [OF st(3) st(4)] .
    show ?thesis
      apply (simp only: st(1) ih batch prod.case join_flatten.simps st(5)
                        list.map append_assoc append_Cons append_Nil)
      apply (simp only: st(6) map_append)
      done
  qed
qed

lemma More_fetchMore_flat_proxies_from:
  assumes "proxies E"
  shows "covers amt (length (children m) - s) \<Longrightarrow>
         More_fetchMore E m amt True s lg =
           ((if s < length (children m) then Some (Inl TypeError) else Some (Inr [])),
            lg @ map (\<lambda>c. Info (info_request c)) (chunks 100 (map t1_prefix (drop s (children m)))))"
proof (induction "length (children m) - s" arbitrary: s amt lg rule: less_induct)
  case less
  show ?case
  proof (cases "s < length (children m)")
    case False
    then show ?thesis
      by (subst More_fetchMore.simps) simp
  next
    case True
    define ids where "ids = map t1_prefix (take 100 (drop s (children m)))"
    note st = More_fetchMore_step [OF True less.prems, folded ids_def]
    have ih: "snd (More_fetchMore E m (minus_len amt (length ids)) True (s + length ids)
                (lg @ [Info (info_request ids)])) =
               (lg @ [Info (info_request ids)]) @
               map (\<lambda>c. Info (info_request c))
                 (chunks 100 (map t1_prefix (drop (s + length ids) (children m))))"
      using less.hyps [OF st(3) st(4)] by simp
    have batch: "map_sum (\<lambda>e. e) items (getListing E lg (info_request ids)) = Inl TypeError"
      using assms by (simp add: getListing_def)
    show ?thesis
      using True ih
      by (simp add: st(1) batch st(5) case_prod_beta)
  qed
qed

section \<open>More.fetchMore: draining a stub through the bulk-info endpoint\<close>

text \<open>
  With \<open>proxies\<close> on, \<open>fetchMore\<close> with \<open>skipReplies = true\<close> and an amount of at least the
  number of children hands over the bulk-info requests for the children's \<open>t1_\<close>
  fullnames, cut into chunks of at most 100, and rejects with the \<open>TypeError\<close> of
  \<open>_promiseWrap\<close> as soon as there is a child to fetch.
\<close>

lemma More_fetchMore_flat_proxies:
  assumes "proxies E" and "covers amt (length (children m))" and "children m \<noteq> []"
  shows "More_fetchMore E m amt True 0 lg =
           (Some (Inl TypeError),
            lg @ map (\<lambda>c. Info (info_request c)) (chunks 100 (map t1_prefix (children m))))"
  using More_fetchMore_flat_proxies_from [OF assms(1), of amt m 0 lg] assms(2,3)
  by simp

text \<open>
  C9, the failing input. A requester with the configuration of \<open>createConfig\<close> (\<open>proxies\<close>
  on, every bulk-info request answered in full) and a stub with the three children
  \<open>a\<close>, \<open>bc\<close>, \<open>def\<close>: \<open>fetchMore({amount: 3, skipReplies: true})\<close> hands over the one request
  for the three fullnames and rejects with a \<open>TypeError\<close>; it does not resolve with three
  items.
\<close>

theorem More_fetchMore_default_config:
  "proxies default_env \<and>
   (\<forall>lg ids. map_sum (\<lambda>e. e) items (srv default_env lg (info_request ids)) = Inr (map length ids)) \<and>
   covers (Fin 3) (length (children stub_example)) \<and>
   More_fetchMore default_env stub_example (Fin 3) True 0 [] =
     (Some (Inl TypeError), [Info (info_request [''t1_a'', ''t1_bc'', ''t1_def''])])"
proof -
  have a: "proxies default_env"
    by (simp add: default_env_def)
  have s: "\<forall>lg ids. map_sum (\<lambda>e. e) items (srv default_env lg (info_request ids)) = Inr (map length ids)"
    by (simp add: default_env_def echo_env_def listing_of_def request_ids_def info_request_def)
  have b: "covers (Fin 3) (length (children stub_example))" and ne: "children stub_example \<noteq> []"
    by (simp_all add: stub_example_def)
  have c: "chunks 100 (map t1_prefix (children stub_example)) = [[''t1_a'', ''t1_bc'', ''t1_def'']]"
    by (simp add: stub_example_def chunks_Cons t1_prefix_def)
  from More_fetchMore_flat_proxies [OF a b ne, of "[]"]
  have "More_fetchMore default_env stub_example (Fin 3) True 0 [] =
     (Some (Inl TypeError), [Info (info_request [''t1_a'', ''t1_bc'', ''t1_def''])])"
    by (simp only: c list.map append_Nil)
  with a s b show ?thesis by blast
qed

text \<open>
  With \<open>proxies\<close> off the stub is drained as the specification says. Let every bulk-info
  request be answered with one item per requested identifier, in order (\<open>resolve\<close>). For a
  stub with \<open>N\<close> children, \<open>fetchMore\<close> with \<open>skipReplies = true\<close> and an amount of at least
  \<open>N\<close> settles, logging exactly the bulk-info requests for the children's \<open>t1_\<close> fullnames
  cut into chunks of at most 100: \<open>ceil(N/100)\<close> of them, each non-empty. It resolves
  with the \<open>N\<close> items in the order of the children list.
\<close>

lemma More_fetchMore_flat:
  assumes "\<not> proxies E"
    and "\<forall>lg ids. map_sum (\<lambda>e. e) items (srv E lg (info_request ids)) = Inr (map resolve ids)"
    and "covers amt (length (children m))"
  shows "More_fetchMore E m amt True 0 lg =
           (Some (Inr (map resolve (map t1_prefix (children m)))),
            lg @ map (\<lambda>c. Info (info_request c)) (chunks 100 (map t1_prefix (children m)))) \<and>
         length (chunks 100 (map t1_prefix (children m))) = (length (children m) + 99) div 100 \<and>
         concat (chunks 100 (map t1_prefix (children m))) = map t1_prefix (children m) \<and>
         (\<forall>c \<in> set (chunks 100 (map t1_prefix (children m))). c \<noteq> [] \<and> length c \<le> 100) \<and>
         length (map resolve (map t1_prefix (children m))) = length (children m)"
proof -
  have batch: "\<And>lg ids. map_sum (\<lambda>e. e) items (getListing E lg (info_request ids)) = Inr (map resolve ids)"
    using assms(1,2) by (simp add: getListing_def)
  have "covers amt (length (children m) - 0)"
    using assms(3) by simp
  from More_fetchMore_flat_from [OF batch this, of lg]
  have run: "More_fetchMore E m amt True 0 lg =
           (Some (Inr (map resolve (map t1_prefix (children m)))),
            lg @ map (\<lambda>c. Info (info_request c)) (chunks 100 (map t1_prefix (children m))))"
    by simp
  have count: "length (chunks 100 (map t1_prefix (children m))) = (length (children m) + 99) div 100"
    by (simp add: length_chunks_100)
  have cat: "concat (chunks 100 (map t1_prefix (children m))) = map t1_prefix (children m)"
    by (simp add: concat_chunks)
  have bounds: "\<forall>c \<in> set (chunks 100 (map t1_prefix (children m))). c \<noteq> [] \<and> length c \<le> 100"
  proof
    fix c assume "c \<in> set (chunks 100 (map t1_prefix (children m)))"
    with chunks_bounds [of 100 c] show "c \<noteq> [] \<and> length c \<le> 100" by simp
  qed
  from run count cat bounds show ?thesis by simp
qed

lemma More_fetchMore_flat_example:
  "More_fetchMore echo_env stub_example (Fin (7 / 2)) True 0 [] =
     (Some (Inr [4, 5, 6]), [Info (info_request [''t1_a'', ''t1_bc'', ''t1_def''])])"
proof -
  have p: "\<not> proxies echo_env"
    by (simp add: echo_env_def)
  have a: "\<forall>lg ids. map_sum (\<lambda>e. e) items (srv echo_env lg (info_request ids)) = Inr (map length ids)"
    by (simp add: echo_env_def listing_of_def request_ids_def info_request_def)
  have b: "covers (Fin (7 / 2)) (length (children stub_example))"
    by (simp add: stub_example_def)
  have c: "chunks 100 (map t1_prefix (children stub_example)) = [[''t1_a'', ''t1_bc'', ''t1_def'']]"
    by (simp add: stub_example_def chunks_Cons t1_prefix_def)
  have d: "map length (map t1_prefix (children stub_example)) = [4, 5, 6]"
    by (simp add: stub_example_def t1_prefix_def)
  from More_fetchMore_flat [OF p a b, of "[]"]
  have "More_fetchMore echo_env stub_example (Fin (7 / 2)) True 0 [] =
          (Some (Inr (map length (map t1_prefix (children stub_example)))),
           [] @ map (\<lambda>c. Info (info_request c))
                  (chunks 100 (map t1_prefix (children stub_example))))"
    by (rule conjunct1)
  then show ?thesis
    by (simp only: c d list.map append_Nil)
qed

text \<open>An amount between 0 and 1 never settles: the slice of identifiers is empty.\<close>

lemma More_fetchMore_fraction:
  "More_fetchMore E stub_example (Fin (1 / 2)) True 0 lg = (None, lg)"
  by (subst More_fetchMore.simps)
     (simp add: stub_example_def getNextIdSlice_def slice_def to_integer_def
        MAX_API_INFO_AMOUNT_def)

section \<open>The calls logged by fetchMore\<close>

lemma More_fetchMore_log:
  "More_fetchMore E m amt sr s lg = (res, lg') \<Longrightarrow>
   \<exists>new. lg' = lg @ new \<and> (\<forall>r. Page r \<notin> set new)"
proof (induction E m amt sr s lg arbitrary: res lg' rule: More_fetchMore.induct)
  case (1 E m amount skipReplies startIndex lg)
  show ?case
  proof (cases "le_zero amount \<or> length (children m) \<le> startIndex")
    case True
    with "1.prems" show ?thesis
      by (subst (asm) More_fetchMore.simps) auto
  next
    case stop: False
    show ?thesis
    proof (cases skipReplies)
      case False
      with stop "1.prems" show ?thesis
        by (subst (asm) More_fetchMore.simps)
           (auto simp: fetchTree_def Let_def split: prod.splits if_splits)
    next
      case True
      define ids where "ids = map t1_prefix (getNextIdSlice (children m) startIndex amount MAX_API_INFO_AMOUNT)"
      show ?thesis
      proof (cases "ids = []")
        case e: True
        with stop True "1.prems" show ?thesis
          by (subst (asm) More_fetchMore.simps) (simp add: Let_def ids_def [symmetric])
      next
        case ne: False
        obtain r1 l1 where rec: "More_fetchMore E m (minus_len amount (length ids)) skipReplies
                 (startIndex + length ids) (lg @ [Info (info_request ids)]) = (r1, l1)"
          by (cases "More_fetchMore E m (minus_len amount (length ids)) skipReplies
                 (startIndex + length ids) (lg @ [Info (info_request ids)])")
        from "1.IH" [OF stop _ ids_def ne refl refl rec] True
        obtain new where new: "l1 = (lg @ [Info (info_request ids)]) @ new" "\<forall>r. Page r \<notin> set new"
          by auto
        from "1.prems" stop True ne rec have "lg' = l1"
          by (subst (asm) More_fetchMore.simps) (simp add: Let_def ids_def [symmetric])
        with new show ?thesis by auto
      qed
    qed
  qed
qed

lemma parse_amount_not_NaN: "parse_options arg = Inr p \<Longrightarrow> p_amount p \<noteq> NaN"
  by (cases arg) (auto split: amount_value.splits if_splits)

lemma plus_minus_len: "plus_len (minus_len n (a + t)) a = minus_len n t"
  by (cases n) simp_all

lemma minus_len_not_NaN: "n \<noteq> NaN \<Longrightarrow> minus_len n x \<noteq> NaN"
  by (cases n) simp_all

lemma delete_count_le [simp]: "min len (delete_count n len) = delete_count n len"
  by (cases n) simp_all

lemma promiseWrap_rejected [simp]: "promiseWrap E (Some (Inl TypeError)) = Some (Inl TypeError)"
  by (simp add: promiseWrap_def)

text \<open>
  \<open>_fetchMoreRegular\<close> builds the page request, and the call of \<open>oauthRequest\<close> rejects:
  the callback that merges a page is not run.
\<close>

lemma fetchMoreRegular_rejects:
  "fetchMoreRegular again L p lg =
     (Some (Inl TypeError), lg @ [Page (page_request L (p_amount p))])"
  by (simp add: fetchMoreRegular_def oauthRequest_no_receiver_def Let_def)

lemma fetchMore_regular_step:
  assumes "parse_options arg = Inr p" "\<not> le_zero (p_amount p)" "\<not> isFinished L"
    "cachedLookahead L = None" "more_stub L = None"
  shows "fetchMore (Suc k) E L arg lg =
           (Some (Inl TypeError), lg @ [Page (page_request L (p_amount p))])"
  using assms by (simp add: fetchMoreRegular_rejects)

text \<open>A Listing that has a lookahead array hands over no request at all.\<close>

lemma fetchMore_lookahead_log:
  "cachedLookahead L = Some buf \<Longrightarrow> snd (fetchMore k E L arg lg) = lg"
proof (induction k arbitrary: L arg buf)
  case 0
  show ?case by simp
next
  case (Suc k)
  show ?case
  proof (cases "parse_options arg")
    case (Inl e)
    then show ?thesis by simp
  next
    case (Inr p)
    show ?thesis
    proof (cases "le_zero (p_amount p) \<or> isFinished L")
      case True
      with Inr show ?thesis by auto
    next
      case False
      define t where "t = delete_count (p_amount p) (length buf)"
      define cloned where "cloned = L\<lparr>items := items L @ take t buf, cachedLookahead := Some (drop t buf)\<rparr>"
      have c: "cachedLookahead cloned = Some (drop t buf)"
        by (simp add: cloned_def)
      have "snd (fetchMore (Suc k) E L arg lg) =
            snd (fetchMore k E cloned
                   (BareNumber (plus_len (minus_len (p_amount p) (length (items cloned)))
                                  (length (items L)))) lg)"
        using Inr False Suc.prems by (simp add: Let_def t_def cloned_def)
      with Suc.IH [OF c] show ?thesis by simp
    qed
  qed
qed

lemma page_request_limit:
  "\<not> isCommentList L \<Longrightarrow> limit (req_qs (page_request L n)) = Some (math_min n MAX_SAFE_INTEGER)"
  by (simp add: page_request_def Let_def)

text \<open>
  The page requests of one call of \<open>fetchMore\<close>: at most the one that the call builds
  from its own amount, which is then above 0.
\<close>

lemma fetchMore_pages:
  "\<exists>new. snd (fetchMore k E L arg lg) = lg @ new \<and>
         (\<forall>r. Page r \<in> set new \<longrightarrow>
            (\<exists>p. parse_options arg = Inr p \<and> \<not> le_zero (p_amount p) \<and>
                 r = page_request L (p_amount p)))"
proof (cases k)
  case 0
  then show ?thesis by simp
next
  case (Suc j)
  show ?thesis
  proof (cases "parse_options arg")
    case (Inl e)
    with Suc show ?thesis by simp
  next
    case (Inr p)
    show ?thesis
    proof (cases "le_zero (p_amount p) \<or> isFinished L")
      case True
      with Inr Suc show ?thesis by auto
    next
      case go: False
      show ?thesis
      proof (cases "cachedLookahead L")
        case (Some buf)
        from fetchMore_lookahead_log [OF this, of k E arg lg] show ?thesis by simp
      next
        case None
        show ?thesis
        proof (cases "more_stub L")
          case (Some m)
          obtain res lg' where run: "More_fetchMore E m (p_amount p) (p_skipReplies p) 0 lg = (res, lg')"
            by (cases "More_fetchMore E m (p_amount p) (p_skipReplies p) 0 lg")
          from More_fetchMore_log [OF run]
          obtain new where new: "lg' = lg @ new" "\<forall>r. Page r \<notin> set new" by blast
          have "snd (fetchMore (Suc j) E L arg lg) = lg'"
            using Inr go None Some run
            by (auto simp: fetchMoreComments_def Let_def split: option.splits sum.splits)
          with new Suc show ?thesis by auto
        next
          case noStub: None
          from go have "\<not> le_zero (p_amount p)" "\<not> isFinished L" by simp_all
          from fetchMore_regular_step [OF Inr this None noStub, of j E lg] Inr go Suc
          show ?thesis by auto
        qed
      qed
    qed
  qed
qed

lemma math_min_finite:
  assumes "n \<noteq> NaN" and "\<not> le_zero n"
  shows "\<exists>q. math_min n MAX_SAFE_INTEGER = Fin q \<and> 0 < q \<and> q \<le> of_int MAX_SAFE_INTEGER \<and>
             (whole n \<longrightarrow> of_int \<lfloor>q\<rfloor> = q)"
proof (cases n)
  case (Fin x)
  have "whole n \<longrightarrow> of_int \<lfloor>min x (of_int MAX_SAFE_INTEGER)\<rfloor> = min x (of_int MAX_SAFE_INTEGER)"
    using Fin by (auto simp: min_def)
  with Fin assms show ?thesis
    by (simp add: MAX_SAFE_INTEGER_def)
next
  case PosInf
  then show ?thesis by (simp add: MAX_SAFE_INTEGER_def)
qed (use assms in simp_all)

section \<open>The limit of a page request\<close>

text \<open>
  C5, counterexample. \<open>fetchMore(2.5)\<close> on a Listing that is not a comment list builds
  a page request whose \<open>limit\<close> is 2.5, which is not an integer.
\<close>

theorem fetchMore_fractional_limit_counterexample:
  "\<not> isCommentList unfetched_example \<and>
   snd (fetchMore (Suc 0) default_env unfetched_example (BareNumber (Fin (5 / 2))) [])
     = [Page (page_request unfetched_example (Fin (5 / 2)))] \<and>
   limit (req_qs (page_request unfetched_example (Fin (5 / 2)))) = Some (Fin (5 / 2)) \<and>
   of_int \<lfloor>5 / 2 :: rat\<rfloor> \<noteq> (5 / 2 :: rat)"
proof -
  have "\<lfloor>5 / 2 :: rat\<rfloor> = 2"
    by (rule floor_unique) simp_all
  then have "of_int \<lfloor>5 / 2 :: rat\<rfloor> \<noteq> (5 / 2 :: rat)"
    by simp
  then show ?thesis
    by (simp add: unfetched_example_def isFinished_def fetchMoreRegular_rejects page_request_def
          omit_nullish_def Let_def MAX_SAFE_INTEGER_def)
qed

text \<open>
  C5, as amended. On a Listing that is not a comment list, a call of \<open>fetchMore\<close> builds
  at most one page request, and its \<open>limit\<close> is \<open>min(amount, MAX_SAFE_INTEGER)\<close> for the
  amount of the call: a finite number above 0 and at most \<open>MAX_SAFE_INTEGER\<close>, and an
  integer whenever the amount is an integer or \<open>Infinity\<close>. Under \<open>fetchAll\<close> the \<open>limit\<close>
  is \<open>MAX_SAFE_INTEGER\<close>; \<open>Infinity\<close> is never sent. The request is built whenever the
  Listing is unfinished and has neither a lookahead array nor a stub, for \<open>fetchAll\<close>
  and for every \<open>fetchMore\<close> with an amount above 0.
\<close>

theorem fetchMore_page_limit:
  assumes "\<not> isCommentList L"
  shows "(\<exists>new. snd (fetchMore k E L arg lg) = lg @ new \<and>
            (\<forall>r. Page r \<in> set new \<longrightarrow>
               (\<exists>p q. parse_options arg = Inr p \<and>
                      limit (req_qs r) = Some (math_min (p_amount p) MAX_SAFE_INTEGER) \<and>
                      math_min (p_amount p) MAX_SAFE_INTEGER = Fin q \<and>
                      0 < q \<and> q \<le> of_int MAX_SAFE_INTEGER \<and>
                      (whole (p_amount p) \<longrightarrow> of_int \<lfloor>q\<rfloor> = q)))) \<and>
         (\<exists>new. snd (fetchAll k E L opts lg) = lg @ new \<and>
            (\<forall>r. Page r \<in> set new \<longrightarrow> limit (req_qs r) = Some (Fin (of_int MAX_SAFE_INTEGER)))) \<and>
         (\<not> isFinished L \<and> cachedLookahead L = None \<and> more_stub L = None \<longrightarrow>
            snd (fetchAll (Suc k) E L opts lg) = lg @ [Page (page_request L PosInf)] \<and>
            (\<forall>p. parse_options arg = Inr p \<and> \<not> le_zero (p_amount p) \<longrightarrow>
               snd (fetchMore (Suc k) E L arg lg) = lg @ [Page (page_request L (p_amount p))]))"
proof -
  have pages: "\<exists>new. snd (fetchMore k E L a lg) = lg @ new \<and>
            (\<forall>r. Page r \<in> set new \<longrightarrow>
               (\<exists>p q. parse_options a = Inr p \<and>
                      limit (req_qs r) = Some (math_min (p_amount p) MAX_SAFE_INTEGER) \<and>
                      math_min (p_amount p) MAX_SAFE_INTEGER = Fin q \<and>
                      0 < q \<and> q \<le> of_int MAX_SAFE_INTEGER \<and>
                      (whole (p_amount p) \<longrightarrow> of_int \<lfloor>q\<rfloor> = q)))" for a
  proof -
    from fetchMore_pages [of k E L a lg]
    obtain new where new: "snd (fetchMore k E L a lg) = lg @ new"
      "\<forall>r. Page r \<in> set new \<longrightarrow>
            (\<exists>p. parse_options a = Inr p \<and> \<not> le_zero (p_amount p) \<and>
                 r = page_request L (p_amount p))"
      by blast
    have "\<exists>p q. parse_options a = Inr p \<and>
                      limit (req_qs r) = Some (math_min (p_amount p) MAX_SAFE_INTEGER) \<and>
                      math_min (p_amount p) MAX_SAFE_INTEGER = Fin q \<and>
                      0 < q \<and> q \<le> of_int MAX_SAFE_INTEGER \<and>
                      (whole (p_amount p) \<longrightarrow> of_int \<lfloor>q\<rfloor> = q)"
      if "Page r \<in> set new" for r
    proof -
      from new(2) that obtain p where p: "parse_options a = Inr p" "\<not> le_zero (p_amount p)"
        "r = page_request L (p_amount p)"
        by blast
      from parse_amount_not_NaN [OF p(1)] p(2)
      obtain q where q: "math_min (p_amount p) MAX_SAFE_INTEGER = Fin q" "0 < q"
        "q \<le> of_int MAX_SAFE_INTEGER" "whole (p_amount p) \<longrightarrow> of_int \<lfloor>q\<rfloor> = q"
        using math_min_finite by blast
      have "limit (req_qs r) = Some (math_min (p_amount p) MAX_SAFE_INTEGER)"
        unfolding p(3) using assms by (rule page_request_limit)
      with p(1) q show ?thesis by blast
    qed
    with new(1) show ?thesis by blast
  qed
  define all where "all = Options \<lparr>amount = Number PosInf,
                 append = (case opts of None \<Rightarrow> None | Some ops \<Rightarrow> append ops),
                 skipReplies = (case opts of None \<Rightarrow> None | Some ops \<Rightarrow> skipReplies ops)\<rparr>"
  obtain pa where pa: "parse_options all = Inr pa" "p_amount pa = PosInf"
    by (simp add: all_def)
  from pages [of all]
  obtain new where new: "snd (fetchMore k E L all lg) = lg @ new"
    "\<forall>r. Page r \<in> set new \<longrightarrow>
       (\<exists>p. parse_options all = Inr p \<and>
            limit (req_qs r) = Some (math_min (p_amount p) MAX_SAFE_INTEGER))"
    by blast
  have "limit (req_qs r) = Some (Fin (of_int MAX_SAFE_INTEGER))" if "Page r \<in> set new" for r
    using new(2) that pa by auto
  with new(1) have b: "\<exists>new. snd (fetchAll k E L opts lg) = lg @ new \<and>
            (\<forall>r. Page r \<in> set new \<longrightarrow> limit (req_qs r) = Some (Fin (of_int MAX_SAFE_INTEGER)))"
    unfolding fetchAll_def all_def [symmetric] by blast
  have c: "snd (fetchAll (Suc k) E L opts lg) = lg @ [Page (page_request L PosInf)]"
    if "\<not> isFinished L" "cachedLookahead L = None" "more_stub L = None"
  proof -
    have "\<not> le_zero (p_amount pa)" using pa(2) by simp
    from fetchMore_regular_step [OF pa(1) this that, of k E lg] pa(2)
    show ?thesis
      unfolding fetchAll_def all_def [symmetric] by simp
  qed
  have d: "snd (fetchMore (Suc k) E L arg lg) = lg @ [Page (page_request L (p_amount p))]"
    if "\<not> isFinished L" "cachedLookahead L = None" "more_stub L = None"
       "parse_options arg = Inr p" "\<not> le_zero (p_amount p)" for p
    using fetchMore_regular_step [OF that(4,5,1,2,3), of k E lg] by simp
  from pages [of arg] b c d show ?thesis by blast
qed

theorem fetchMore_page_limit_witness:
  "\<not> isCommentList unfetched_example \<and> \<not> isFinished unfetched_example \<and>
   cachedLookahead unfetched_example = None \<and> more_stub unfetched_example = None \<and>
   snd (fetchAll (Suc 0) default_env unfetched_example None [])
     = [Page (page_request unfetched_example PosInf)] \<and>
   limit (req_qs (page_request unfetched_example PosInf)) = Some (Fin (of_int MAX_SAFE_INTEGER)) \<and>
   parse_options (BareNumber (Fin 5)) = Inr \<lparr>p_amount = Fin 5, p_append = True, p_skipReplies = False\<rparr> \<and>
   \<not> le_zero (Fin 5) \<and>
   snd (fetchMore (Suc 0) default_env unfetched_example (BareNumber (Fin 5)) [])
     = [Page (page_request unfetched_example (Fin 5))] \<and>
   limit (req_qs (page_request unfetched_example (Fin 5))) = Some (Fin 5)"
proof -
  let ?p = "\<lparr>p_amount = Fin 5, p_append = True, p_skipReplies = False\<rparr>"
  have a: "\<not> isCommentList unfetched_example"
    by (simp add: unfetched_example_def)
  have b: "\<not> isFinished unfetched_example \<and> cachedLookahead unfetched_example = None \<and>
           more_stub unfetched_example = None"
    by (simp add: unfetched_example_def isFinished_def)
  have c: "parse_options (BareNumber (Fin 5)) = Inr ?p \<and> \<not> le_zero (p_amount ?p)"
    by simp
  note inst = fetchMore_page_limit [OF a, where k = "Suc 0" and E = default_env
               and arg = "BareNumber (Fin 5)" and lg = "[]" and opts = None]
  from inst b have all: "snd (fetchAll (Suc (Suc 0)) default_env unfetched_example None [])
                          = [] @ [Page (page_request unfetched_example PosInf)]"
    by blast
  from inst b c have one: "snd (fetchMore (Suc (Suc 0)) default_env unfetched_example (BareNumber (Fin 5)) [])
                          = [] @ [Page (page_request unfetched_example (p_amount ?p))]"
    by blast
  from inst obtain new where new: "snd (fetchAll (Suc 0) default_env unfetched_example None []) = [] @ new"
    "\<forall>r. Page r \<in> set new \<longrightarrow> limit (req_qs r) = Some (Fin (of_int MAX_SAFE_INTEGER))"
    by blast
  have all1: "snd (fetchAll (Suc 0) default_env unfetched_example None [])
                = [Page (page_request unfetched_example PosInf)]"
    by (simp add: fetchAll_def unfetched_example_def isFinished_def fetchMoreRegular_rejects)
  with new have lim: "limit (req_qs (page_request unfetched_example PosInf))
                        = Some (Fin (of_int MAX_SAFE_INTEGER))"
    by auto
  have one1: "snd (fetchMore (Suc 0) default_env unfetched_example (BareNumber (Fin 5)) [])
                = [Page (page_request unfetched_example (Fin 5))]"
    by (simp add: unfetched_example_def isFinished_def fetchMoreRegular_rejects)
  have lim5: "limit (req_qs (page_request unfetched_example (Fin 5))) = Some (Fin 5)"
    using a by (simp add: page_request_limit MAX_SAFE_INTEGER_def)
  from a b c all1 lim one1 lim5 show ?thesis by simp
qed

section \<open>Surplus items and the lookahead buffer\<close>



lemma merge_page_comments:
  "isCommentList L \<Longrightarrow> len_gt (length (items response)) (p_amount p) \<Longrightarrow>
   cachedLookahead (merge_page L p response)
     = Some (slice_from (p_amount p) (merged_items L (p_append p) (items response))) \<and>
   items (merge_page L p response)
     = keep_before (p_amount p) (merged_items L (p_append p) (items response))"
  by (simp add: merge_page_def merged_items_def Let_def empty_items_def)




section \<open>Items kept by fetchMore\<close>

text \<open>
  Whenever \<open>fetchMore\<close> resolves and \<open>append\<close> is true, the items of the original Listing
  are at the head of the result's items, in their order. It resolves only on a
  Listing that is finished or has a lookahead array or a stub.
\<close>

lemma fetchMore_keeps_items:
  "fetchMore k E L arg lg = (Some (Inr R), lg') \<Longrightarrow> parse_options arg = Inr p \<Longrightarrow> p_append p \<Longrightarrow>
   \<exists>post. items R = items L @ post"
proof (induction k arbitrary: L arg p lg R lg')
  case 0
  then show ?case by simp
next
  case (Suc k)
  let ?n = "p_amount p"
  have nan: "?n \<noteq> NaN" using Suc.prems(2) by (rule parse_amount_not_NaN)
  show ?case
  proof (cases "le_zero ?n \<or> isFinished L")
    case True
    with Suc.prems(1,2,3) have "R = L"
      by (auto simp: promiseWrap_def split: if_splits)
    then show ?thesis by simp
  next
    case go: False
    show ?thesis
    proof (cases "cachedLookahead L")
      case (Some buf)
      define t where "t = delete_count ?n (length buf)"
      define cloned where "cloned = L\<lparr>items := items L @ take t buf, cachedLookahead := Some (drop t buf)\<rparr>"
      define arg' where "arg' = BareNumber (minus_len ?n t)"
      have step: "fetchMore (Suc k) E L arg lg = fetchMore k E cloned arg' lg"
        using Suc.prems(2) go Some
        by (simp add: Let_def t_def cloned_def arg'_def plus_minus_len add.commute)
      have p': "parse_options arg' = Inr \<lparr>p_amount = minus_len ?n t, p_append = True, p_skipReplies = False\<rparr>"
        using nan by (simp add: arg'_def minus_len_not_NaN)
      from Suc.prems(1) step have run: "fetchMore k E cloned arg' lg = (Some (Inr R), lg')" by simp
      from Suc.IH [OF run p']
      obtain post where "items R = items cloned @ post"
        by auto
      then have "items R = items L @ (take t buf @ post)"
        by (simp add: cloned_def)
      then show ?thesis by blast
    next
      case None
      show ?thesis
      proof (cases "more_stub L")
        case (Some m)
        obtain res l1 where run: "More_fetchMore E m ?n (p_skipReplies p) 0 lg = (res, l1)"
          by (cases "More_fetchMore E m ?n (p_skipReplies p) 0 lg")
        from Suc.prems(1,2,3) go None Some run
        obtain moreComments where "items R = items L @ moreComments"
          by (auto simp: fetchMoreComments_def Let_def promiseWrap_def
                split: option.splits sum.splits if_splits)
        then show ?thesis by blast
      next
        case noStub: None
        from go have "\<not> le_zero ?n" "\<not> isFinished L" by simp_all
        from fetchMore_regular_step [OF Suc.prems(2) this None noStub, of k E lg] Suc.prems(1)
        show ?thesis by simp
      qed
    qed
  qed
qed

text \<open>
  The callback of \<open>_fetchMoreRegular\<close> on a Listing that is not a comment list: with
  \<open>append\<close> true the page goes to the head of the items when the \<open>before\<close> cursor is
  truthy and to their tail otherwise.
\<close>

lemma merge_page_order:
  "\<not> isCommentList L \<Longrightarrow> p_append p \<Longrightarrow>
   items (merge_page L p response) =
     (if truthy (before (query L)) then items response @ items L else items L @ items response)"
  by (simp add: merge_page_def Let_def)

text \<open>
  C3, the failing input. A Listing of the two items \<open>[1, 2]\<close> with an \<open>after\<close> cursor, as a
  first page leaves it, and a Listing that has not been fetched yet:
  \<open>fetchMore({amount: 1, append: true})\<close> builds the page request and rejects with a
  \<open>TypeError\<close>, with \<open>proxies\<close> off and on. There is no resulting Listing, and no fetched
  item is added to the two items.
\<close>

theorem fetchMore_regular_rejects:
  "items paged_example = [1, 2] \<and> \<not> isFinished paged_example \<and>
   fetchMore (Suc (Suc 0)) two_items_env paged_example
     (Options \<lparr>amount = Number (Fin 1), append = Some True, skipReplies = None\<rparr>) [] =
     (Some (Inl TypeError), [Page (page_request paged_example (Fin 1))]) \<and>
   fetchMore (Suc (Suc 0)) default_env paged_example
     (Options \<lparr>amount = Number (Fin 1), append = Some True, skipReplies = None\<rparr>) [] =
     (Some (Inl TypeError), [Page (page_request paged_example (Fin 1))]) \<and>
   fetchAll (Suc (Suc 0)) two_items_env unfetched_example None [] =
     (Some (Inl TypeError), [Page (page_request unfetched_example PosInf)])"
  by (simp add: paged_example_def unfetched_example_def isFinished_def fetchAll_def
        fetchMoreRegular_rejects)

section \<open>The request pipeline: what an attempt leaves behind\<close>

lemma delay_fields [simp]:
  "config (delay x st) = config st" "sent (delay x st) = sent st"
  "accessToken (delay x st) = accessToken st" "tokenExpiration (delay x st) = tokenExpiration st"
  by (cases x; simp)+

lemma awaitRatelimit_fields:
  "awaitRatelimit st = Inr st' \<Longrightarrow> config st' = config st \<and> sent st' = sent st"
  by (auto simp: awaitRatelimit_def Let_def split: if_splits)

lemma awaitRatelimit_failure:
  "awaitRatelimit st = Inl e \<Longrightarrow> failed_method e = None \<and> statusCode e = None"
  by (auto simp: awaitRatelimit_def Let_def split: if_splits)

lemma awaitRequestDelay_fields [simp]:
  "config (awaitRequestDelay st) = config st" "sent (awaitRequestDelay st) = sent st"
  by (simp_all add: awaitRequestDelay_def Let_def)

lemma awaitExponentialBackoff_fields [simp]:
  "config (awaitExponentialBackoff N a st) = config st" "sent (awaitExponentialBackoff N a st) = sent st"
  by (simp_all add: awaitExponentialBackoff_def)

lemma updateAccessToken_fields:
  assumes "updateAccessToken N a st = (r, st')"
  shows "config st' = config st \<and>
         (\<exists>new. sent st' = sent st @ new \<and> (\<forall>x \<in> set new. fst x = a)) \<and>
         (\<forall>e. r = Inl e \<longrightarrow> failed_method e = None \<or> failed_method e = Some Post)"
  using assms
  by (auto simp: updateAccessToken_def Let_def split: if_splits reply.splits)

lemma attempt_fields:
  assumes "attempt N st options a = (r, st')"
  shows "config st' = config st \<and>
         (\<exists>new. sent st' = sent st @ new \<and> (\<forall>x \<in> set new. fst x = a)) \<and>
         (\<forall>e. r = Inl e \<longrightarrow> failed_method e = None \<or> failed_method e = Some Post \<or>
                failed_method e = Some (req_method options))"
proof (cases "awaitRatelimit st")
  case (Inl e)
  with assms awaitRatelimit_failure [OF Inl] show ?thesis by (auto simp: attempt_def)
next
  case (Inr s1)
  define s2 where "s2 = awaitExponentialBackoff N a (awaitRequestDelay s1)"
  have s2: "config s2 = config st" "sent s2 = sent st"
    using awaitRatelimit_fields [OF Inr] by (simp_all add: s2_def)
  obtain r3 s3 where upd: "updateAccessToken N a s2 = (r3, s3)"
    by (cases "updateAccessToken N a s2")
  note u = updateAccessToken_fields [OF upd]
  show ?thesis
  proof (cases r3)
    case e: (Inl e)
    with assms Inr upd have "r = Inl e" "st' = s3"
      by (simp_all add: attempt_def Let_def s2_def)
    with u e s2 show ?thesis by auto
  next
    case tok: (Inr token)
    from u s2 obtain new where new: "sent s3 = sent st @ new" "\<forall>x \<in> set new. fst x = a"
      and cfg: "config s3 = config st" by auto
    from assms Inr upd tok
    have "config st' = config s3 \<and>
          sent st' = sent s3 @ [(a, OAuth options token)] \<and>
          (\<forall>e. r = Inl e \<longrightarrow> failed_method e = None \<or> failed_method e = Some (req_method options))"
      by (auto simp: attempt_def Let_def s2_def split: reply.splits option.splits if_splits)
    with new cfg show ?thesis by auto
  qed
qed

lemma catch_401_unfold:
  "catch_401 again options a (Some (Inl e), st) =
     (if statusCode e = Some 401 \<and> token_stale st
      then again (st\<lparr>accessToken := None, tokenExpiration := None\<rparr>) options a
      else (Some (Inl e), st))"
  "catch_401 again options a (Some (Inr v), st) = (Some (Inr v), st)"
  "catch_401 again options a (None, st) = (None, st)"
  by (simp_all add: catch_401_def)
lemma attempt_config: "config (snd (attempt N st options a)) = config st"
  using attempt_fields [of N st options a] by (cases "attempt N st options a") simp

text \<open>
  With retry codes configured the first handler never runs: a failed attempt is the
  outcome of the call unless the second handler takes it.
\<close>

lemma oauthRequest_codes_configured:
  assumes "retryErrorCodes (config st) \<noteq> []" and "attempt N st options attempts = (Inl e, st1)"
  shows "oauthRequest (Suc k) N st options attempts =
           (if statusCode e = Some 401 \<and> token_stale st1
            then oauthRequest k N (st1\<lparr>accessToken := None, tokenExpiration := None\<rparr>) options attempts
            else (Some (Inl e), st1))"
  using assms by (simp add: catch_first_def catch_401_def)

text \<open>
  So every request that a call sends carries the call's own \<open>attempts\<close>: no call is
  made with \<open>attempts + 1\<close>, whatever the status, the method and the budget.
\<close>

lemma oauthRequest_never_retries:
  "retryErrorCodes (config st) \<noteq> [] \<Longrightarrow>
   config (snd (oauthRequest k N st options a)) = config st \<and>
   (\<exists>new. sent (snd (oauthRequest k N st options a)) = sent st @ new \<and>
      (\<forall>x \<in> set new. fst x = a))"
proof (induction k arbitrary: st)
  case 0
  show ?case by simp
next
  case (Suc k)
  obtain r1 st1 where att: "attempt N st options a = (r1, st1)"
    by (cases "attempt N st options a")
  from attempt_fields [OF att]
  obtain new1 where f1: "config st1 = config st" "sent st1 = sent st @ new1"
    "\<forall>x \<in> set new1. fst x = a"
    by auto
  show ?case
  proof (cases r1)
    case (Inr v)
    with att have "oauthRequest (Suc k) N st options a = (Some (Inr v), st1)"
      by (simp add: catch_401_def)
    with f1 show ?thesis by simp
  next
    case (Inl e)
    note step = oauthRequest_codes_configured [OF Suc.prems att [unfolded Inl], of k]
    show ?thesis
    proof (cases "statusCode e = Some 401 \<and> token_stale st1")
      case False
      with step have "oauthRequest (Suc k) N st options a = (Some (Inl e), st1)"
        by simp
      with f1 show ?thesis by simp
    next
      case True
      define st2 where "st2 = st1\<lparr>accessToken := None, tokenExpiration := None\<rparr>"
      have f2: "config st2 = config st" "sent st2 = sent st @ new1"
        using f1 by (simp_all add: st2_def)
      from True step have s: "oauthRequest (Suc k) N st options a = oauthRequest k N st2 options a"
        by (simp add: st2_def)
      from Suc.prems f2(1) have "retryErrorCodes (config st2) \<noteq> []" by simp
      from Suc.IH [OF this] f2
      obtain new2 where "config (snd (oauthRequest k N st2 options a)) = config st"
        "sent (snd (oauthRequest k N st2 options a)) = sent st @ (new1 @ new2)"
        "\<forall>x \<in> set new2. fst x = a"
        by auto
      with f1(3) show ?thesis
        unfolding s by (metis Un_iff set_append)
    qed
  qed
qed

text \<open>
  With \<open>retryErrorCodes\<close> empty the first handler takes every failed attempt that
  carries a response, whatever its status.
\<close>

lemma oauthRequest_no_codes:
  assumes "retryErrorCodes (config st) = []"
    and "attempt N st options attempts = (Inl (StatusCodeError c m), st1)"
  shows "oauthRequest (Suc k) N st options attempts =
           catch_401 (oauthRequest k N) options attempts
             (if m \<in> set IDEMPOTENT_HTTP_VERBS \<and> attempts < maxRetryAttempts (config st)
              then oauthRequest k N st1 options (attempts + 1)
              else (Some (Inl (StatusCodeError c m)), st1))"
proof -
  have "config st1 = config st"
    using attempt_config [of N st options attempts] assms(2) by simp
  with assms show ?thesis
    by (simp add: catch_first_def not_le)
qed

lemmas pipeline_defs =
  attempt_def awaitRatelimit_def awaitRequestDelay_def awaitExponentialBackoff_def
  updateAccessToken_def catch_first_def catch_401_def
  token_stale_def IDEMPOTENT_HTTP_VERBS_def MAX_TOKEN_LATENCY_def createConfig_def Let_def

lemmas example_defs =
  token_state_def no_codes_state_def about_request_def fresh_token_def
  unavailable_def failing_once_def

section \<open>Retrying on a retryable status\<close>

text \<open>
  C7, the failing input. A requester with the configuration of \<open>createConfig\<close> (retry
  codes 502, 503, 504, 522 and three attempts) and a valid token sends a GET, and the
  server answers 503. GET is idempotent and this is the first attempt, but the request
  is not sent again: the 503 is the outcome of the call after one request.
\<close>

theorem oauthRequest_default_config_no_retry:
  "retryErrorCodes (config token_state) = [502, 503, 504, 522] \<and>
   maxRetryAttempts (config token_state) = 3 \<and>
   req_method (about_request Get) \<in> set IDEMPOTENT_HTTP_VERBS \<and>
   fst (oauthRequest (Suc (Suc (Suc (Suc 0)))) unavailable token_state (about_request Get) 1)
     = Some (Inl (StatusCodeError 503 Get)) \<and>
   sent (snd (oauthRequest (Suc (Suc (Suc (Suc 0)))) unavailable token_state (about_request Get) 1))
     = [(1, OAuth (about_request Get) (Some ''tok''))]"
  by (simp add: pipeline_defs example_defs)

text \<open>
  With \<open>retryErrorCodes\<close> set to the empty array the same GET is sent three times, as
  attempts 1, 2 and 3, and a POST once.
\<close>

lemma no_codes_retry:
  "fst (oauthRequest (Suc (Suc (Suc (Suc 0)))) unavailable no_codes_state (about_request Get) 1)
     = Some (Inl (StatusCodeError 503 Get))"
  "map fst (sent (snd (oauthRequest (Suc (Suc (Suc (Suc 0)))) unavailable no_codes_state
                        (about_request Get) 1)))
     = [1, 2, 3]"
  "fst (oauthRequest (Suc (Suc (Suc (Suc 0)))) unavailable no_codes_state (about_request Post) 1)
     = Some (Inl (StatusCodeError 503 Post))"
  "map fst (sent (snd (oauthRequest (Suc (Suc (Suc (Suc 0)))) unavailable no_codes_state
                        (about_request Post) 1)))
     = [1]"
  by (simp_all add: pipeline_defs example_defs)

section \<open>A 401 on a token about to expire\<close>

text \<open>
  With retry codes configured, as by default, a 401 on a cached token whose expiry is
  less than \<open>MAX_TOKEN_LATENCY\<close> (10000 ms) away makes the call forget the token and run
  again with the same \<open>attempts\<close>; any other 401 is the outcome of the call.
\<close>

lemma oauthRequest_stale_token:
  assumes "retryErrorCodes (config st) \<noteq> []"
    and "fst (attempt N st options attempts) = Inl e" and "statusCode e = Some 401"
  shows "oauthRequest (Suc k) N st options attempts =
          (if token_stale (snd (attempt N st options attempts))
           then oauthRequest k N
                  ((snd (attempt N st options attempts))\<lparr>accessToken := None, tokenExpiration := None\<rparr>)
                  options attempts
           else (Some (Inl e), snd (attempt N st options attempts)))"
proof -
  have att: "attempt N st options attempts = (Inl e, snd (attempt N st options attempts))"
    using assms(2) by (cases "attempt N st options attempts") simp
  from oauthRequest_codes_configured [OF assms(1) att, of k] assms(3)
  show ?thesis by simp
qed

lemma token_stale_iff:
  "tokenExpiration st = Some (Fin t) \<Longrightarrow>
   token_stale st = (present (accessToken st) \<and> t - of_int (now st) < 10000)"
  by (simp add: token_stale_def MAX_TOKEN_LATENCY_def)

lemma stale_401_default_config:
  "fst (attempt (failing_once 401) token_state (about_request Get) 1) = Inl (StatusCodeError 401 Get)"
  "token_stale (snd (attempt (failing_once 401) token_state (about_request Get) 1))"
  "fst (oauthRequest (Suc (Suc 0)) (failing_once 401) token_state (about_request Get) 1) = Some (Inr ())"
  "sent (snd (oauthRequest (Suc (Suc 0)) (failing_once 401) token_state (about_request Get) 1))
     = [(1, OAuth (about_request Get) (Some ''tok'')),
        (1, TokenRequest (RefreshGrant ''rt'')),
        (1, OAuth (about_request Get) (Some ''tok2''))]"
  by (simp_all add: pipeline_defs example_defs)

text \<open>
  C8, the failing input. The same requester with \<open>retryErrorCodes\<close> set to the empty
  array: a GET fails with 401 on the cached token \<open>tok\<close>, which is 8 seconds from expiry.
  The first handler takes the 401: the request is sent again as attempt 2, after the
  backoff of a second attempt and with the same token, which stays cached. The specification
  has the token forgotten and the request sent again as attempt 1.
\<close>

theorem oauthRequest_stale_401_no_codes:
  "retryErrorCodes (config no_codes_state) = [] \<and>
   fst (attempt (failing_once 401) no_codes_state (about_request Get) 1)
     = Inl (StatusCodeError 401 Get) \<and>
   token_stale (snd (attempt (failing_once 401) no_codes_state (about_request Get) 1)) \<and>
   fst (oauthRequest (Suc (Suc 0)) (failing_once 401) no_codes_state (about_request Get) 1)
     = Some (Inr ()) \<and>
   accessToken (snd (oauthRequest (Suc (Suc 0)) (failing_once 401) no_codes_state (about_request Get) 1))
     = Some ''tok'' \<and>
   sent (snd (oauthRequest (Suc (Suc 0)) (failing_once 401) no_codes_state (about_request Get) 1))
     = [(1, OAuth (about_request Get) (Some ''tok'')),
        (2, OAuth (about_request Get) (Some ''tok''))]"
  by (simp add: pipeline_defs example_defs)

section \<open>The store: objects that a call leaves alone\<close>

text \<open>
  Allocation and assignment to an object allocated after \<open>h0\<close> leave the objects of
  \<open>h0\<close> as they are; a clone is such an object, and so are its query, its \<open>More\<close> and
  its lookahead array.
\<close>

lemma preserves_refl [simp]: "preserves h h"
  by (simp add: preserves_def)

lemma preserves_trans: "preserves h1 h2 \<Longrightarrow> preserves h2 h3 \<Longrightarrow> preserves h1 h3"
  by (auto simp: preserves_def)

lemma preserves_next_ref: "preserves h h' \<Longrightarrow> next_ref h \<le> next_ref h'"
  by (simp add: preserves_def)

lemma preserves_new:
  "preserves h0 h \<Longrightarrow> preserves h0 (fst (new_query q h))"
  "preserves h0 h \<Longrightarrow> preserves h0 (fst (new_array xs h))"
  "preserves h0 h \<Longrightarrow> preserves h0 (fst (new_ids ids h))"
  "preserves h0 h \<Longrightarrow> preserves h0 (fst (new_More m h))"
  "preserves h0 h \<Longrightarrow> preserves h0 (fst (new_Listing L h))"
  by (auto simp: new_query_def new_array_def new_ids_def new_More_def new_Listing_def
        preserves_def)

lemma snd_new [simp]:
  "snd (new_query q h) = next_ref h"
  "snd (new_array xs h) = next_ref h"
  "snd (new_ids ids h) = next_ref h"
  "snd (new_More m h) = next_ref h"
  "snd (new_Listing L h) = next_ref h"
  by (simp_all add: new_query_def new_array_def new_ids_def new_More_def new_Listing_def)

lemma preserves_set:
  "preserves h0 h \<Longrightarrow> next_ref h0 \<le> r \<Longrightarrow> preserves h0 (set_Listing r L h)"
  "preserves h0 h \<Longrightarrow> next_ref h0 \<le> r \<Longrightarrow> preserves h0 (set_query r q h)"
  "preserves h0 h \<Longrightarrow> next_ref h0 \<le> r \<Longrightarrow> preserves h0 (set_array r xs h)"
  "preserves h0 h \<Longrightarrow> next_ref h0 \<le> r \<Longrightarrow> preserves h0 (set_More r m h)"
  by (auto simp: set_Listing_def set_query_def set_array_def set_More_def preserves_def)

lemma preserves_store_More: "preserves h0 h \<Longrightarrow> preserves h0 (fst (store_More m h))"
  by (simp add: store_More_def case_prod_beta preserves_new)

lemma preserves_store_Listing: "preserves h0 h \<Longrightarrow> preserves h0 (fst (store_Listing L h))"
  by (simp add: store_Listing_def case_prod_beta Let_def preserves_new preserves_store_More
      split: option.splits)

text \<open>Reading the Listing object back after an assignment.\<close>

lemma get_Listing_set [simp]:
  "get_Listing (set_Listing r L h) r = L"
  "get_Listing (set_query r' q h) r = get_Listing h r"
  "get_Listing (set_array r' xs h) r = get_Listing h r"
  "get_Listing (set_More r' m h) r = get_Listing h r"
  by (simp_all add: get_Listing_def set_Listing_def set_query_def set_array_def set_More_def)

lemma owns_o_items [simp]: "owns h0 (c\<lparr>o_items := xs\<rparr>) = owns h0 c"
  by (simp add: owns_def)

lemma owns_fields:
  "owns h0 c \<Longrightarrow> next_ref h0 \<le> o_query c"
  "owns h0 c \<Longrightarrow> o_more c = Some m \<Longrightarrow> next_ref h0 \<le> m"
  "owns h0 c \<Longrightarrow> o_cachedLookahead c = Some a \<Longrightarrow> next_ref h0 \<le> a"
  by (simp_all add: owns_def)

lemma clone_st_preserves: "preserves h0 h \<Longrightarrow> preserves h0 (fst (clone_st l h))"
  by (simp add: clone_st_def More_clone_st_def case_prod_beta Let_def preserves_new
      split: option.splits)

lemma clone_st_fresh:
  "next_ref h \<le> snd (clone_st l h) \<and> owns h (get_Listing (fst (clone_st l h)) (snd (clone_st l h)))"
  by (auto simp: clone_st_def More_clone_st_def new_More_def new_query_def new_array_def
        new_Listing_def owns_def get_Listing_def Let_def
      split: prod.splits option.splits)

lemma clone_st_ref: "preserves h0 h \<Longrightarrow> next_ref h0 \<le> snd (clone_st l h)"
  using clone_st_fresh [of h l] by (auto simp: preserves_def)

lemma clone_st_owns:
  "preserves h0 h \<Longrightarrow> owns h0 (get_Listing (fst (clone_st l h)) (snd (clone_st l h)))"
  using clone_st_fresh [of h l] by (auto simp: preserves_def owns_def split: option.splits)

lemma empty_st_preserves:
  "preserves h0 h \<Longrightarrow> next_ref h0 \<le> c \<Longrightarrow> preserves h0 (empty_st c h)"
  by (simp add: empty_st_def preserves_set)

lemma owns_empty_st [simp]: "owns h0 (get_Listing (empty_st c h) c) = owns h0 (get_Listing h c)"
  by (simp add: empty_st_def)

lemma get_Listing_empty_st [simp]:
  "get_Listing (empty_st c h) c = (get_Listing h c)\<lparr>o_items := []\<rparr>"
  by (simp add: empty_st_def)


lemma merge_items_st_preserves:
  assumes "preserves h0 h" and "next_ref h0 \<le> c" and "owns h0 (get_Listing h c)"
  shows "preserves h0 (merge_items_st c r h)"
  using assms owns_fields(1) [OF assms(3)]
  by (simp add: merge_items_st_def Let_def preserves_set)

lemma keep_surplus_st_preserves:
  assumes "preserves h0 h" and "next_ref h0 \<le> c"
  shows "preserves h0 (keep_surplus_st c r n h)"
  using assms
  by (simp add: keep_surplus_st_def case_prod_beta Let_def preserves_set preserves_new)

lemma get_Listing_merge_items_st:
  "o_query (get_Listing (merge_items_st c r h) c) = o_query (get_Listing h c) \<and>
   o_more (get_Listing (merge_items_st c r h) c) = o_more (get_Listing h c) \<and>
   o_cachedLookahead (get_Listing (merge_items_st c r h) c) = o_cachedLookahead (get_Listing h c)"
  by (simp add: merge_items_st_def Let_def)

lemma merge_page_st_preserves:
  assumes "preserves h0 h"
  shows "preserves h0 (fst (merge_page_st l p response h))"
proof -
  have p1: "preserves h0 (fst (clone_st l h))"
    and c1: "next_ref h0 \<le> snd (clone_st l h)"
    and o1: "owns h0 (get_Listing (fst (clone_st l h)) (snd (clone_st l h)))"
    using assms by (simp_all add: clone_st_preserves clone_st_ref clone_st_owns)
  show ?thesis
    unfolding merge_page_st_def
    using p1 c1 o1
    by (simp add: case_prod_beta Let_def empty_st_preserves merge_items_st_preserves
          keep_surplus_st_preserves)
qed

lemma fetchMoreComments_st_preserves:
  assumes "preserves h0 h"
  shows "preserves h0 (heap_of (fetchMoreComments_st E l m p h lg))"
proof -
  have p1: "preserves h0 (fst (clone_st l h))"
    and c1: "next_ref h0 \<le> snd (clone_st l h)"
    and o1: "owns h0 (get_Listing (fst (clone_st l h)) (snd (clone_st l h)))"
    using assms by (simp_all add: clone_st_preserves clone_st_ref clone_st_owns)
  have m1: "o_more (get_Listing (fst (clone_st l h)) (snd (clone_st l h))) = Some cm \<Longrightarrow>
            next_ref h0 \<le> cm" for cm
    using o1 by (rule owns_fields(2))
  show ?thesis
    unfolding fetchMoreComments_st_def heap_of_def
    using assms p1 c1 m1
    by (simp add: case_prod_beta Let_def preserves_set preserves_new empty_st_preserves
        split: option.splits sum.splits)
qed

lemma fetchMoreRegular_st_preserves:
  assumes "preserves h0 h"
      and "\<And>h1 c arg lg1. preserves h0 h1 \<Longrightarrow> preserves h0 (heap_of (again c arg h1 lg1))"
  shows "preserves h0 (heap_of (fetchMoreRegular_st again l p h lg))"
  unfolding fetchMoreRegular_st_def
  using assms(1)
  by (simp add: case_prod_beta Let_def assms(2) merge_page_st_preserves preserves_store_Listing
        heap_of_def [where r = "(x, y)" for x y]
      split: sum.splits)

lemma fetchMore_st_preserves:
  "preserves h0 h \<Longrightarrow> preserves h0 (heap_of (fetchMore_st k E l arg h lg))"
proof (induction k arbitrary: l arg h lg)
  case 0
  then show ?case
    by (simp add: heap_of_def)
next
  case (Suc k)
  have p1: "preserves h0 (fst (clone_st l h))"
    and c1: "next_ref h0 \<le> snd (clone_st l h)"
    and o1: "owns h0 (get_Listing (fst (clone_st l h)) (snd (clone_st l h)))"
    using Suc.prems by (simp_all add: clone_st_preserves clone_st_ref clone_st_owns)
  have a1: "o_cachedLookahead (get_Listing (fst (clone_st l h)) (snd (clone_st l h))) = Some a \<Longrightarrow>
            next_ref h0 \<le> a" for a
    using o1 by (rule owns_fields(3))
  have cm: "preserves h0 (fst (snd (fetchMoreComments_st E l m p h lg)))" for m p
    using fetchMoreComments_st_preserves [OF Suc.prems, of E l m p lg]
    by (simp add: heap_of_def)
  have rg: "preserves h0 (fst (snd (fetchMoreRegular_st (fetchMore_st k E) l p h lg)))" for p
    using fetchMoreRegular_st_preserves [OF Suc.prems, of "fetchMore_st k E" l p lg] Suc.IH
    by (simp add: heap_of_def)
  show ?case
    using Suc.prems p1 c1 a1
    by (simp add: case_prod_beta Let_def Suc.IH preserves_set empty_st_preserves cm rg
          heap_of_def [where r = "(x, y)" for x y]
        split: option.splits sum.splits)
qed

text \<open>
  The callback of \<open>_fetchMoreRegular\<close> with the call of \<open>fetchMore\<close> on the clone that ends
  it, for any page: it leaves the objects of \<open>h0\<close> as they are, too.
\<close>

lemma fetchMoreRegular_callback_preserves:
  assumes "preserves h0 h"
  shows "preserves h0
           (heap_of (fetchMore_st k E
              (snd (merge_page_st l p (snd (store_Listing response h)) (fst (store_Listing response h))))
              arg
              (fst (merge_page_st l p (snd (store_Listing response h)) (fst (store_Listing response h))))
              lg))"
  by (intro fetchMore_st_preserves merge_page_st_preserves preserves_store_Listing assms)

lemma preserves_Listing_at:
  assumes "allocated h l" and "preserves h h'"
  shows "Listing_at h' l = Listing_at h l"
  using assms
  by (auto simp: allocated_def inside_def allocated_More_def preserves_def Listing_at_def
        Listing_of_def More_at_def get_Listing_def get_query_def get_array_def get_More_def get_ids_def Let_def
      split: option.splits)


section \<open>The original Listing after fetchMore and fetchAll\<close>

text \<open>
  C4. For every Listing in the store and every call of \<open>fetchMore\<close> or \<open>fetchAll\<close> on it,
  with any argument, every object that existed before the call is the same at every
  point of the run, and so the original Listing reads the same: its items, its query
  with both cursors, its \<open>More\<close> with the children list, and its lookahead buffer. What is
  written is a clone and the objects allocated for it.
\<close>

theorem fetchMore_original_unchanged:
  assumes "allocated h l"
  shows "preserves h (heap_of (fetchMore_st k E l arg h lg)) \<and>
         Listing_at (heap_of (fetchMore_st k E l arg h lg)) l = Listing_at h l \<and>
         preserves h (heap_of (fetchAll_st k E l opts h lg)) \<and>
         Listing_at (heap_of (fetchAll_st k E l opts h lg)) l = Listing_at h l"
proof -
  have p: "preserves h (heap_of (fetchMore_st k E l a h lg))" for a
    by (rule fetchMore_st_preserves) simp
  have "Listing_at (heap_of (fetchMore_st k E l a h lg)) l = Listing_at h l" for a
    using assms p by (rule preserves_Listing_at)
  with p show ?thesis
    by (simp add: fetchAll_st_def)
qed

text \<open>
  Two runs: one takes two items out of the lookahead buffer of the clone, the other
  fetches two of three stubbed comments and gives the clone's \<open>More\<close> a shorter children
  list. The original Listing reads as before in both.
\<close>

theorem fetchMore_original_unchanged_witness:
  "allocated lookahead_heap lookahead_ref \<and>
   Listing_at lookahead_heap lookahead_ref = lookahead_example \<and>
   Listing_at (heap_of (fetchMore_st (Suc (Suc 0)) two_items_env lookahead_ref
                          (BareNumber (Fin 2)) lookahead_heap [])) lookahead_ref
     = lookahead_example \<and>
   result_of (fetchMore_st (Suc (Suc 0)) two_items_env lookahead_ref (BareNumber (Fin 2))
                lookahead_heap []) =
     Some (Inr (lookahead_example\<lparr>items := [1, 4, 5], cachedLookahead := Some [6]\<rparr>)) \<and>
   allocated stub_heap stub_ref \<and>
   Listing_at stub_heap stub_ref = stub_listing \<and>
   Listing_at (heap_of (fetchMore_st (Suc 0) echo_env stub_ref
                          (Options \<lparr>amount = Number (Fin 2), append = None, skipReplies = Some True\<rparr>)
                          stub_heap [])) stub_ref
     = stub_listing \<and>
   result_of (fetchMore_st (Suc 0) echo_env stub_ref
                (Options \<lparr>amount = Number (Fin 2), append = None, skipReplies = Some True\<rparr>)
                stub_heap []) =
     Some (Inr (stub_listing\<lparr>items := [1, 4, 5],
                               more_stub := Some (stub_example\<lparr>children := [''def'']\<rparr>)\<rparr>))"
proof -
  let ?opts = "Options \<lparr>amount = Number (Fin 2), append = None, skipReplies = Some True\<rparr>"
  have a: "allocated lookahead_heap lookahead_ref"
    by code_simp
  have b: "Listing_at lookahead_heap lookahead_ref = lookahead_example"
    by code_simp
  have c: "result_of (fetchMore_st (Suc (Suc 0)) two_items_env lookahead_ref (BareNumber (Fin 2))
                        lookahead_heap []) =
           Some (Inr (lookahead_example\<lparr>items := [1, 4, 5], cachedLookahead := Some [6]\<rparr>))"
    by code_simp
  have a': "allocated stub_heap stub_ref"
    by code_simp
  have b': "Listing_at stub_heap stub_ref = stub_listing"
    by code_simp
  have c': "result_of (fetchMore_st (Suc 0) echo_env stub_ref ?opts stub_heap []) =
            Some (Inr (stub_listing\<lparr>items := [1, 4, 5],
                                      more_stub := Some (stub_example\<lparr>children := [''def'']\<rparr>)\<rparr>))"
    by code_simp
  from fetchMore_original_unchanged [OF a, of "Suc (Suc 0)" two_items_env "BareNumber (Fin 2)" "[]"]
  have d: "Listing_at (heap_of (fetchMore_st (Suc (Suc 0)) two_items_env lookahead_ref
                          (BareNumber (Fin 2)) lookahead_heap [])) lookahead_ref
           = Listing_at lookahead_heap lookahead_ref"
    by blast
  from fetchMore_original_unchanged [OF a', of "Suc 0" echo_env ?opts "[]"]
  have d': "Listing_at (heap_of (fetchMore_st (Suc 0) echo_env stub_ref ?opts stub_heap [])) stub_ref
           = Listing_at stub_heap stub_ref"
    by blast
  from a b c a' b' c' d [unfolded b] d' [unfolded b'] show ?thesis
    by blast
qed



section \<open>The store model and the model on values\<close>

text \<open>
  Reading an object after an allocation or an assignment.
\<close>

lemma get_new [simp]:
  "get_query (fst (new_query q h)) r = (if r = next_ref h then q else get_query h r)"
  "get_array (fst (new_query q h)) r = get_array h r"
  "get_ids (fst (new_query q h)) r = get_ids h r"
  "get_More (fst (new_query q h)) r = get_More h r"
  "get_Listing (fst (new_query q h)) r = get_Listing h r"
  "get_query (fst (new_array xs h)) r = get_query h r"
  "get_array (fst (new_array xs h)) r = (if r = next_ref h then xs else get_array h r)"
  "get_ids (fst (new_array xs h)) r = get_ids h r"
  "get_More (fst (new_array xs h)) r = get_More h r"
  "get_Listing (fst (new_array xs h)) r = get_Listing h r"
  "get_query (fst (new_ids ids h)) r = get_query h r"
  "get_array (fst (new_ids ids h)) r = get_array h r"
  "get_ids (fst (new_ids ids h)) r = (if r = next_ref h then ids else get_ids h r)"
  "get_More (fst (new_ids ids h)) r = get_More h r"
  "get_Listing (fst (new_ids ids h)) r = get_Listing h r"
  "get_query (fst (new_More m h)) r = get_query h r"
  "get_array (fst (new_More m h)) r = get_array h r"
  "get_ids (fst (new_More m h)) r = get_ids h r"
  "get_More (fst (new_More m h)) r = (if r = next_ref h then m else get_More h r)"
  "get_Listing (fst (new_More m h)) r = get_Listing h r"
  "get_query (fst (new_Listing L h)) r = get_query h r"
  "get_array (fst (new_Listing L h)) r = get_array h r"
  "get_ids (fst (new_Listing L h)) r = get_ids h r"
  "get_More (fst (new_Listing L h)) r = get_More h r"
  "get_Listing (fst (new_Listing L h)) r = (if r = next_ref h then L else get_Listing h r)"
  by (simp_all add: new_query_def new_array_def new_ids_def new_More_def new_Listing_def
        get_query_def get_array_def get_ids_def get_More_def get_Listing_def)

lemma next_ref_new [simp]:
  "next_ref (fst (new_query q h)) = Suc (next_ref h)"
  "emptyChildren_ref (fst (new_query q h)) = emptyChildren_ref h"
  "next_ref (fst (new_array xs h)) = Suc (next_ref h)"
  "emptyChildren_ref (fst (new_array xs h)) = emptyChildren_ref h"
  "next_ref (fst (new_ids ids h)) = Suc (next_ref h)"
  "emptyChildren_ref (fst (new_ids ids h)) = emptyChildren_ref h"
  "next_ref (fst (new_More m h)) = Suc (next_ref h)"
  "emptyChildren_ref (fst (new_More m h)) = emptyChildren_ref h"
  "next_ref (fst (new_Listing L h)) = Suc (next_ref h)"
  "emptyChildren_ref (fst (new_Listing L h)) = emptyChildren_ref h"
  by (simp_all add: new_query_def new_array_def new_ids_def new_More_def new_Listing_def)

lemma get_set [simp]:
  "get_query (set_query r' q h) r = (if r = r' then q else get_query h r)"
  "get_array (set_query r' q h) r = get_array h r"
  "get_ids (set_query r' q h) r = get_ids h r"
  "get_More (set_query r' q h) r = get_More h r"
  "get_Listing (set_query r' q h) r = get_Listing h r"
  "get_query (set_array r' xs h) r = get_query h r"
  "get_array (set_array r' xs h) r = (if r = r' then xs else get_array h r)"
  "get_ids (set_array r' xs h) r = get_ids h r"
  "get_More (set_array r' xs h) r = get_More h r"
  "get_Listing (set_array r' xs h) r = get_Listing h r"
  "get_query (set_More r' m h) r = get_query h r"
  "get_array (set_More r' m h) r = get_array h r"
  "get_ids (set_More r' m h) r = get_ids h r"
  "get_More (set_More r' m h) r = (if r = r' then m else get_More h r)"
  "get_Listing (set_More r' m h) r = get_Listing h r"
  "get_query (set_Listing r' L h) r = get_query h r"
  "get_array (set_Listing r' L h) r = get_array h r"
  "get_ids (set_Listing r' L h) r = get_ids h r"
  "get_More (set_Listing r' L h) r = get_More h r"
  "get_Listing (set_Listing r' L h) r = (if r = r' then L else get_Listing h r)"
  by (simp_all add: set_query_def set_array_def set_More_def set_Listing_def
        get_query_def get_array_def get_ids_def get_More_def get_Listing_def)

lemma next_ref_set [simp]:
  "next_ref (set_query r q h) = next_ref h"
  "emptyChildren_ref (set_query r q h) = emptyChildren_ref h"
  "next_ref (set_array r xs h) = next_ref h"
  "emptyChildren_ref (set_array r xs h) = emptyChildren_ref h"
  "next_ref (set_More r m h) = next_ref h"
  "emptyChildren_ref (set_More r m h) = emptyChildren_ref h"
  "next_ref (set_Listing r L h) = next_ref h"
  "emptyChildren_ref (set_Listing r L h) = emptyChildren_ref h"
  by (simp_all add: set_query_def set_array_def set_More_def set_Listing_def)

lemmas view_defs = Listing_at_def Listing_of_def More_at_def allocated_def inside_def
  allocated_More_def

lemma preserves_Listing_of:
  "preserves h h' \<Longrightarrow> inside h obj \<Longrightarrow> Listing_of h' obj = Listing_of h obj"
  by (auto simp: inside_def allocated_More_def preserves_def Listing_of_def More_at_def
        get_query_def get_array_def get_More_def get_ids_def Let_def
      split: option.splits)

lemma preserves_inside: "preserves h h' \<Longrightarrow> inside h obj \<Longrightarrow> inside h' obj"
  by (auto simp: inside_def allocated_More_def preserves_def get_More_def split: option.splits)

lemma preserves_get_Listing:
  "preserves h h' \<Longrightarrow> r < next_ref h \<Longrightarrow> get_Listing h' r = get_Listing h r"
  by (simp add: preserves_def get_Listing_def)

lemma preserves_allocated: "preserves h h' \<Longrightarrow> allocated h l \<Longrightarrow> allocated h' l"
  using preserves_inside [of h h'] preserves_get_Listing [of h h' l]
  by (auto simp: allocated_def preserves_def)

lemma preserves_More_at:
  "preserves h h' \<Longrightarrow> allocated_More h m \<Longrightarrow> More_at h' m = More_at h m \<and> allocated_More h' m"
  by (auto simp: allocated_More_def preserves_def More_at_def get_More_def get_ids_def Let_def)

lemma preserves_valid: "preserves h h' \<Longrightarrow> valid h \<Longrightarrow> valid h'"
  using preserves_More_at [of h h' "emptyChildren_ref h"]
  by (auto simp: valid_def preserves_def)

lemma Listing_at_store_Listing:
  "Listing_at (fst (store_Listing L h)) (snd (store_Listing L h)) = L \<and>
   allocated (fst (store_Listing L h)) (snd (store_Listing L h))"
  by (cases "more_stub L"; cases "cachedLookahead L")
     (simp_all add: store_Listing_def store_More_def view_defs case_prod_beta Let_def)

lemma clone_st_view:
  assumes "allocated h l"
  shows "Listing_at (fst (clone_st l h)) (snd (clone_st l h)) = Listing_at h l \<and>
         allocated (fst (clone_st l h)) (snd (clone_st l h))"
  using assms
  by (cases "o_more (get_Listing h l)"; cases "o_cachedLookahead (get_Listing h l)")
     (simp_all add: clone_st_def More_clone_st_def view_defs case_prod_beta Let_def)


lemma Listing_of_sel [simp]:
  "items (Listing_of h obj) = o_items obj"
  "query (Listing_of h obj) = get_query h (o_query obj)"
  "isCommentList (Listing_of h obj) = o_isCommentList obj"
  "more_stub (Listing_of h obj) = map_option (More_at h) (o_more obj)"
  "cachedLookahead (Listing_of h obj) = map_option (get_array h) (o_cachedLookahead obj)"
  by (simp_all add: Listing_of_def)

lemma More_at_set [simp]:
  "More_at (set_Listing r L h) m = More_at h m"
  "More_at (set_query r q h) m = More_at h m"
  "More_at (set_array r xs h) m = More_at h m"
  by (simp_all add: More_at_def)

lemma Listing_of_set [simp]:
  "Listing_of (set_Listing r L h) obj = Listing_of h obj"
  "Listing_of (set_query q v h) obj =
     (if o_query obj = q then (Listing_of h obj)\<lparr>query := v\<rparr> else Listing_of h obj)"
  "Listing_of (set_array a xs h) obj =
     (if o_cachedLookahead obj = Some a then (Listing_of h obj)\<lparr>cachedLookahead := Some xs\<rparr>
      else Listing_of h obj)"
  by (auto simp: Listing_of_def map_option_case split: option.splits)


lemma Listing_of_update [simp]:
  "Listing_of h (obj\<lparr>o_items := xs\<rparr>) = (Listing_of h obj)\<lparr>items := xs\<rparr>"
  "Listing_of h (obj\<lparr>o_more := Some m\<rparr>) = (Listing_of h obj)\<lparr>more_stub := Some (More_at h m)\<rparr>"
  "Listing_of h (obj\<lparr>o_cachedLookahead := Some a\<rparr>) =
     (Listing_of h obj)\<lparr>cachedLookahead := Some (get_array h a)\<rparr>"
  by (simp_all add: Listing_of_def)

lemma inside_set [simp]:
  "inside (set_Listing r L h) obj = inside h obj"
  "inside (set_query r q h) obj = inside h obj"
  "inside (set_array r xs h) obj = inside h obj"
  "inside h (obj\<lparr>o_items := ys\<rparr>) = inside h obj"
  by (simp_all add: inside_def allocated_More_def cong: option.case_cong)

lemma valid_set [simp]:
  "valid (set_Listing r L h) = valid h"
  "valid (set_query r q h) = valid h"
  "valid (set_array r xs h) = valid h"
  by (simp_all add: valid_def allocated_More_def)

lemma clone_st_facts:
  assumes "allocated h l" and "valid h"
  shows "Listing_of (fst (clone_st l h)) (get_Listing (fst (clone_st l h)) (snd (clone_st l h)))
           = Listing_at h l"
    and "inside (fst (clone_st l h)) (get_Listing (fst (clone_st l h)) (snd (clone_st l h)))"
    and "snd (clone_st l h) < next_ref (fst (clone_st l h))"
    and "valid (fst (clone_st l h))"
    and "get_Listing (fst (clone_st l h)) l = get_Listing h l"
    and "snd (clone_st l h) \<noteq> l"
    and "preserves h (fst (clone_st l h))"
proof -
  have p: "preserves h (fst (clone_st l h))"
    by (simp add: clone_st_preserves)
  show "preserves h (fst (clone_st l h))"
    by (rule p)
  from clone_st_view [OF assms(1)]
  show "Listing_of (fst (clone_st l h)) (get_Listing (fst (clone_st l h)) (snd (clone_st l h)))
           = Listing_at h l"
    and "inside (fst (clone_st l h)) (get_Listing (fst (clone_st l h)) (snd (clone_st l h)))"
    and "snd (clone_st l h) < next_ref (fst (clone_st l h))"
    by (simp_all add: Listing_at_def allocated_def)
  show "valid (fst (clone_st l h))"
    using p assms(2) by (rule preserves_valid)
  show "get_Listing (fst (clone_st l h)) l = get_Listing h l"
    using p assms(1) by (simp add: preserves_get_Listing allocated_def)
  show "snd (clone_st l h) \<noteq> l"
    using clone_st_fresh [of h l] assms(1) by (auto simp: allocated_def)
qed

lemma Listing_at_empty_st [simp]:
  "Listing_at (empty_st c h) c = empty_items (Listing_at h c)"
  by (simp add: Listing_at_def empty_st_def empty_items_def)


lemma result_of_simps [simp]:
  "result_of (None, h, lg) = None"
  "result_of (Some (Inl e), h, lg) = Some (Inl e)"
  "result_of (Some (Inr c), h, lg) = Some (Inr (Listing_at h c))"
  "log_of (r, h, lg) = lg"
  by (simp_all add: result_of_def log_of_def heap_of_def)

lemma promiseWrap_run:
  "result_of (case r of (outcome, h, lg') \<Rightarrow> (promiseWrap E outcome, h, lg')) =
     promiseWrap E (result_of r)"
  "log_of (case r of (outcome, h, lg') \<Rightarrow> (promiseWrap E outcome, h, lg')) = log_of r"
  "result_of (case r of (outcome, x) \<Rightarrow> (promiseWrap E outcome, x)) = promiseWrap E (result_of r)"
  "log_of (case r of (outcome, x) \<Rightarrow> (promiseWrap E outcome, x)) = log_of r"
  by (cases r; simp add: promiseWrap_def result_of_def log_of_def heap_of_def)+

lemma fetchMore_st_finished:
  assumes "valid h" and "allocated h l" and "parse_options arg = Inr p"
      and "le_zero (p_amount p) \<or> isFinished (Listing_at h l)"
  shows "fetchMore (Suc k) E (Listing_at h l) arg lg =
           (result_of (fetchMore_st (Suc k) E l arg h lg),
            log_of (fetchMore_st (Suc k) E l arg h lg))"
  using assms(3,4) clone_st_facts(1) [OF assms(2,1)]
  by (simp add: case_prod_beta promiseWrap_def Listing_at_def [of "fst (clone_st l h)"] )

lemma fetchMore_st_lookahead:
  assumes "valid h" and "allocated h l" and "parse_options arg = Inr p"
      and "\<not> (le_zero (p_amount p) \<or> isFinished (Listing_at h l))"
      and "o_cachedLookahead (get_Listing h l) = Some a"
      and IH: "\<And>l arg h lg. valid h \<Longrightarrow> allocated h l \<Longrightarrow>
             fetchMore k E (Listing_at h l) arg lg =
               (result_of (fetchMore_st k E l arg h lg), log_of (fetchMore_st k E l arg h lg))"
  shows "fetchMore (Suc k) E (Listing_at h l) arg lg =
           (result_of (fetchMore_st (Suc k) E l arg h lg),
            log_of (fetchMore_st (Suc k) E l arg h lg))"
proof -
  define L where "L = Listing_at h l"
  define h1 where "h1 = fst (clone_st l h)"
  define c where "c = snd (clone_st l h)"
  define cobj where "cobj = get_Listing h1 c"
  note cl = clone_st_facts [OF assms(2,1), folded h1_def c_def, folded cobj_def L_def]
  have la0: "cachedLookahead L = Some (get_array h a)"
    using assms(5) by (simp add: L_def Listing_at_def)
  with cl(1) obtain la where la: "o_cachedLookahead cobj = Some la" "get_array h1 la = get_array h a"
    by (cases "o_cachedLookahead cobj") (auto simp: Listing_of_def)
  define buf where "buf = get_array h a"
  define n where "n = delete_count (p_amount p) (length buf)"
  define h3 where "h3 = set_Listing c (cobj\<lparr>o_items := items L @ take n buf\<rparr>)
                          (set_array la (drop n buf) h1)"
  have items: "o_items cobj = items L"
    using cl(1) by (auto simp: Listing_of_def)
  have items0: "o_items (get_Listing h l) = items L"
    by (simp add: L_def Listing_at_def)
  have view: "Listing_at h3 c = L\<lparr>items := items L @ take n buf, cachedLookahead := Some (drop n buf)\<rparr>"
    using cl(1) la items by (simp add: Listing_at_def h3_def)
  have ok: "valid h3" "allocated h3 c"
    using cl(2,3,4) by (simp_all add: h3_def allocated_def)
  have orig: "o_items (get_Listing h3 l) = items L"
    using cl(5,6) by (simp add: h3_def L_def Listing_at_def)
  have new: "o_items (get_Listing h3 c) = items L @ take n buf"
    using items by (simp add: h3_def)
  have mn: "min (length buf) n = n"
    by (simp add: n_def)
  have st: "fetchMore_st (Suc k) E l arg h lg =
          fetchMore_st k E c
            (BareNumber (plus_len (minus_len (p_amount p) (length (items L @ take n buf)))
                           (length (items L)))) h3 lg"
    using assms(3,4,5) la items items0 cl(5,6) mn
    by (simp add: case_prod_beta Let_def h1_def [symmetric] c_def [symmetric] cobj_def [symmetric]
          buf_def [symmetric] n_def [symmetric] h3_def [symmetric] L_def [symmetric]
          Listing_at_def [symmetric])
  have val: "fetchMore (Suc k) E L arg lg =
          fetchMore k E (L\<lparr>items := items L @ take n buf, cachedLookahead := Some (drop n buf)\<rparr>)
            (BareNumber (plus_len (minus_len (p_amount p) (length (items L @ take n buf)))
                           (length (items L)))) lg"
    using assms(3,4) la0
    by (simp add: Let_def L_def [symmetric] buf_def [symmetric] n_def [symmetric])
  show ?thesis
    unfolding L_def [symmetric] st val view [symmetric]
    using ok by (rule IH)
qed


lemma Listing_of_new_children:
  assumes "o_more obj = Some cm" and "m_children v = next_ref h"
  shows "Listing_of (set_More cm v (fst (new_ids xs h))) obj =
           (Listing_of h obj)\<lparr>more_stub :=
              Some \<lparr>children = xs, link_id = m_link_id v, parent_id = m_parent_id v\<rparr>\<rparr>"
  using assms by (cases "o_cachedLookahead obj") (simp_all add: Listing_of_def More_at_def)


lemma fetchMore_st_comments:
  assumes "valid h" and "allocated h l" and "o_more (get_Listing h l) = Some m"
  shows "fetchMoreComments E (Listing_at h l) (More_at h m) p lg =
           (result_of (fetchMoreComments_st E l m p h lg),
            log_of (fetchMoreComments_st E l m p h lg))"
proof -
  define L where "L = Listing_at h l"
  define h1 where "h1 = fst (clone_st l h)"
  define c where "c = snd (clone_st l h)"
  define cobj where "cobj = get_Listing h1 c"
  note cl = clone_st_facts [OF assms(2,1), folded h1_def c_def, folded cobj_def L_def]
  have m0: "more_stub L = Some (More_at h m)"
    using assms(3) by (simp add: L_def Listing_at_def)
  with cl(1) obtain cm where cm: "o_more cobj = Some cm" "More_at h1 cm = More_at h m"
    by (cases "o_more cobj") (auto simp: Listing_of_def)
  obtain r lg' where run: "More_fetchMore E (More_at h m) (p_amount p) (p_skipReplies p) 0 lg = (r, lg')"
    by (cases "More_fetchMore E (More_at h m) (p_amount p) (p_skipReplies p) 0 lg")
  show ?thesis
  proof (cases r)
    case None
    with run show ?thesis
      by (simp add: fetchMoreComments_def fetchMoreComments_st_def)
  next
    case (Some out)
    show ?thesis
    proof (cases out)
      case (Inl e)
      with Some run show ?thesis
        by (simp add: fetchMoreComments_def fetchMoreComments_st_def)
    next
      case (Inr mc)
      define h2 where "h2 = (if \<not> p_append p then empty_st c h1 else h1)"
      define L2 where "L2 = (if \<not> p_append p then empty_items L else L)"
      define obj2 where "obj2 = get_Listing h2 c"
      have v2: "Listing_of h2 obj2 = L2" and cm2: "o_more obj2 = Some cm"
        and m2: "More_at h2 cm = More_at h m"
        using cl(1) cm
        by (auto simp: h2_def L2_def obj2_def cobj_def [symmetric] empty_st_def empty_items_def)
      define stub where "stub = get_More h2 cm"
      have stub: "get_ids h2 (m_children stub) = children (More_at h m)"
        "m_link_id stub = link_id (More_at h m)" "m_parent_id stub = parent_id (More_at h m)"
        using m2 by (auto simp: More_at_def stub_def Let_def)
      have st: "fetchMoreComments_st E l m p h lg =
          (Some (Inr c),
           set_More cm (stub\<lparr>m_children := next_ref h2\<rparr>)
             (fst (new_ids (slice_from (p_amount p) (children (More_at h m)))
                     (set_Listing c (obj2\<lparr>o_items := o_items obj2 @ mc\<rparr>) h2))),
           lg')"
        using run Some Inr cm2 stub(1)
        unfolding stub_def obj2_def h2_def
        by (cases "p_append p")
           (simp_all add: fetchMoreComments_st_def case_prod_beta Let_def h1_def [symmetric]
              c_def [symmetric])
      have val: "fetchMoreComments E L (More_at h m) p lg =
          (Some (Inr (L2\<lparr>items := items L2 @ mc,
                          more_stub := Some ((More_at h m)\<lparr>children :=
                             slice_from (p_amount p) (children (More_at h m))\<rparr>)\<rparr>)), lg')"
        using run Some Inr m0
        by (simp add: fetchMoreComments_def Let_def L2_def empty_items_def)
      have "Listing_at (set_More cm (stub\<lparr>m_children := next_ref h2\<rparr>)
             (fst (new_ids (slice_from (p_amount p) (children (More_at h m)))
                     (set_Listing c (obj2\<lparr>o_items := o_items obj2 @ mc\<rparr>) h2)))) c =
            L2\<lparr>items := items L2 @ mc,
                more_stub := Some ((More_at h m)\<lparr>children :=
                             slice_from (p_amount p) (children (More_at h m))\<rparr>)\<rparr>"
        using cm2 stub(2,3) v2 [symmetric]
        by (simp add: Listing_at_def Listing_of_new_children)
      thus ?thesis
        unfolding L_def [symmetric] st val by simp
    qed
  qed
qed


lemma More_at_new [simp]:
  "More_at (fst (new_array xs h)) m = More_at h m"
  "More_at (fst (new_query q h)) m = More_at h m"
  "More_at (fst (new_Listing L h)) m = More_at h m"
  by (simp_all add: More_at_def)

lemma allocated_More_step [simp]:
  "allocated_More (set_Listing r L h) m = allocated_More h m"
  "allocated_More (set_query r q h) m = allocated_More h m"
  "allocated_More (set_array r xs h) m = allocated_More h m"
  "allocated_More h m \<Longrightarrow> allocated_More (fst (new_array xs h)) m"
  by (simp_all add: allocated_More_def)

lemma valid_new_array [simp]: "valid h \<Longrightarrow> valid (fst (new_array xs h))"
  by (simp add: valid_def)

lemma Listing_of_fields:
  assumes "Listing_of h obj = L"
  shows "o_items obj = items L" "get_query h (o_query obj) = query L"
    "o_method obj = http_method L" "o_isCommentList obj = isCommentList L"
    "o_link_id obj = listing_link_id L" "o_uri obj = uri L"
    "map_option (More_at h) (o_more obj) = more_stub L"
    "map_option (get_array h) (o_cachedLookahead obj) = cachedLookahead L"
  using assms by (auto simp: Listing_of_def)

lemma Listing_of_new_array [simp]:
  "Listing_of (fst (new_array xs h)) obj =
     (if o_cachedLookahead obj = Some (next_ref h)
      then (Listing_of h obj)\<lparr>cachedLookahead := Some xs\<rparr> else Listing_of h obj)"
  by (cases "o_cachedLookahead obj"; cases "o_more obj") (simp_all add: Listing_of_def)

lemma Listing_of_o_more [simp]:
  "Listing_of h (obj\<lparr>o_more := x\<rparr>) = (Listing_of h obj)\<lparr>more_stub := map_option (More_at h) x\<rparr>"
  by (simp add: Listing_of_def)

lemma merge_items_st_view:
  assumes "Listing_of h (get_Listing h c) = Lc" and "Listing_of h (get_Listing h r) = R"
      and "r \<noteq> c"
  shows "Listing_at (merge_items_st c r h) c =
           (if truthy (before (query Lc))
            then Lc\<lparr>items := items R @ items Lc,
                    query := (query Lc)\<lparr>before := before (query R), after := Null\<rparr>\<rparr>
            else Lc\<lparr>items := items Lc @ items R,
                    query := (query Lc)\<lparr>before := Null, after := after (query R)\<rparr>\<rparr>)"
  using Listing_of_fields(1,2) [OF assms(1)] Listing_of_fields(1,2) [OF assms(2)] assms(1,3)
  by (simp add: merge_items_st_def Let_def Listing_at_def)

lemma merge_items_st_frame [simp]:
  "next_ref (merge_items_st c r h) = next_ref h"
  "emptyChildren_ref (merge_items_st c r h) = emptyChildren_ref h"
  "More_at (merge_items_st c r h) m = More_at h m"
  "allocated_More (merge_items_st c r h) m = allocated_More h m"
  "valid (merge_items_st c r h) = valid h"
  "inside (merge_items_st c r h) obj = inside h obj"
  "x \<noteq> c \<Longrightarrow> get_Listing (merge_items_st c r h) x = get_Listing h x"
  by (simp_all add: merge_items_st_def Let_def)

lemma More_at_merge_items_st: "More_at (merge_items_st c r h) = More_at h"
  by (rule ext) simp

lemma inside_merge_items_st:
  "inside h (get_Listing h c) \<Longrightarrow> inside h (get_Listing (merge_items_st c r h) c)"
  using get_Listing_merge_items_st [of c r h] by (simp add: inside_def)


lemma keep_surplus_st_view:
  assumes "Listing_of h (get_Listing h c) = Lc"
      and "more_stub R = map_option (More_at h) (o_more (get_Listing h r))"
      and "o_items (get_Listing h r) = items R"
      and "More_at h (emptyChildren_ref h) = emptyChildren"
      and "r \<noteq> c"
  shows "Listing_at (keep_surplus_st c r n h) c =
           (let cloned = Lc\<lparr>more_stub :=
                  (case more_stub Lc of
                     Some m \<Rightarrow> Some m
                   | None \<Rightarrow> (case more_stub R of
                               Some m \<Rightarrow> Some m
                             | None \<Rightarrow> Some emptyChildren))\<rparr>
            in if len_gt (length (items R)) n
               then cloned\<lparr>items := keep_before n (items cloned),
                           cachedLookahead := Some (slice_from n (items cloned))\<rparr>
               else cloned)"
  using Listing_of_fields(1,7) [OF assms(1)] assms
  by (cases "o_more (get_Listing h c)"; cases "o_more (get_Listing h r)")
     (auto simp: keep_surplus_st_def Let_def case_prod_beta Listing_at_def)

lemma keep_surplus_st_allocated:
  assumes "c < next_ref h" and "inside h (get_Listing h c)" and "inside h (get_Listing h r)"
      and "valid h" and "r \<noteq> c"
  shows "allocated (keep_surplus_st c r n h) c \<and> valid (keep_surplus_st c r n h)"
  using assms
  by (cases "o_more (get_Listing h c)"; cases "o_more (get_Listing h r)";
      cases "o_cachedLookahead (get_Listing h c)")
     (auto simp: keep_surplus_st_def Let_def case_prod_beta allocated_def inside_def valid_def)


lemma merge_page_st_view:
  assumes "valid h" and "allocated h l" and "allocated h r"
  shows "Listing_at (fst (merge_page_st l p r h)) (snd (merge_page_st l p r h)) =
           merge_page (Listing_at h l) p (Listing_at h r) \<and>
         allocated (fst (merge_page_st l p r h)) (snd (merge_page_st l p r h)) \<and>
         valid (fst (merge_page_st l p r h))"
proof -
  define L where "L = Listing_at h l"
  define R where "R = Listing_at h r"
  define h1 where "h1 = fst (clone_st l h)"
  define c where "c = snd (clone_st l h)"
  note cl = clone_st_facts [OF assms(2,1), folded h1_def c_def, folded L_def]
  have fresh: "next_ref h \<le> c"
    using clone_st_fresh [of h l] by (simp add: c_def)
  have rc: "r \<noteq> c" "r < next_ref h" "inside h (get_Listing h r)"
    using assms(3) fresh by (auto simp: allocated_def)
  define h2 where "h2 = (if \<not> p_append p then empty_st c h1 else h1)"
  define L2 where "L2 = (if \<not> p_append p then empty_items L else L)"
  have s2: "Listing_of h2 (get_Listing h2 c) = L2" "inside h2 (get_Listing h2 c)"
    "c < next_ref h2" "valid h2"
    using cl(1-4) by (auto simp: h2_def L2_def empty_st_def empty_items_def)
  have l2: "get_Listing h2 l = get_Listing h l"
    using cl(5,6) by (auto simp: h2_def empty_st_def)
  have r2: "get_Listing h2 r = get_Listing h r"
    using rc(1,2) cl(7) by (auto simp: h2_def empty_st_def preserves_get_Listing)
  have "Listing_of h1 (get_Listing h r) = R" "inside h1 (get_Listing h r)"
    using cl(7) rc(3) by (simp_all add: preserves_Listing_of preserves_inside R_def Listing_at_def)
  hence R2: "Listing_of h2 (get_Listing h2 r) = R" "inside h2 (get_Listing h2 r)"
    unfolding r2 by (auto simp: h2_def empty_st_def)
  define h3 where "h3 = merge_items_st c r h2"
  define L3 where "L3 =
    (if truthy (before (query L2))
     then L2\<lparr>items := items R @ items L2,
             query := (query L2)\<lparr>before := before (query R), after := Null\<rparr>\<rparr>
     else L2\<lparr>items := items L2 @ items R,
             query := (query L2)\<lparr>before := Null, after := after (query R)\<rparr>\<rparr>)"
  have v3: "Listing_of h3 (get_Listing h3 c) = L3"
    using merge_items_st_view [OF s2(1) R2(1) rc(1)]
    by (simp add: h3_def L3_def Listing_at_def)
  have s3: "inside h3 (get_Listing h3 c)" "c < next_ref h3" "valid h3"
    "inside h3 (get_Listing h3 r)" "get_Listing h3 l = get_Listing h l"
    "get_Listing h3 r = get_Listing h2 r"
    using s2(2-4) R2(2) rc(1) cl(6) l2 inside_merge_items_st [of h2 c r]
    by (simp_all add: h3_def)
  have R3: "more_stub R = map_option (More_at h3) (o_more (get_Listing h3 r))"
    "o_items (get_Listing h3 r) = items R"
    using Listing_of_fields(1,7) [OF R2(1)] s3(6) rc(1)
    by (auto simp: h3_def More_at_merge_items_st)
  have ec3: "More_at h3 (emptyChildren_ref h3) = emptyChildren"
    using s3(3) by (simp add: valid_def)
  have lc: "o_isCommentList (get_Listing h l) = isCommentList L"
    by (simp add: L_def Listing_at_def)
  have st: "merge_page_st l p r h =
              ((if isCommentList L then keep_surplus_st c r (p_amount p) h3 else h3), c)"
    unfolding merge_page_st_def Let_def case_prod_beta
    by (simp only: h1_def [symmetric] c_def [symmetric] h2_def [symmetric] h3_def [symmetric]
          s3(5) lc)
  have val: "merge_page L p R =
     (if isCommentList L
      then (let cloned = L3\<lparr>more_stub :=
                  (case more_stub L3 of
                     Some m \<Rightarrow> Some m
                   | None \<Rightarrow> (case more_stub R of
                               Some m \<Rightarrow> Some m
                             | None \<Rightarrow> Some emptyChildren))\<rparr>
            in if len_gt (length (items R)) (p_amount p)
               then cloned\<lparr>items := keep_before (p_amount p) (items cloned),
                           cachedLookahead := Some (slice_from (p_amount p) (items cloned))\<rparr>
               else cloned)
      else L3)"
    by (simp add: merge_page_def Let_def L3_def L2_def)
  show ?thesis
  proof (cases "isCommentList L")
    case True
    with keep_surplus_st_view [OF v3 R3 ec3 rc(1), of "p_amount p"]
         keep_surplus_st_allocated [OF s3(2,1,4,3) rc(1), of "p_amount p"]
    show ?thesis
      unfolding L_def [symmetric] R_def [symmetric] st val by simp
  next
    case False
    with v3 s3(1-3) show ?thesis
      unfolding L_def [symmetric] R_def [symmetric] st val
      by (simp add: Listing_at_def allocated_def)
  qed
qed


lemma fetchMore_st_regular:
  "fetchMoreRegular again (Listing_at h l) p lg =
     (result_of (fetchMoreRegular_st again' l p h lg),
      log_of (fetchMoreRegular_st again' l p h lg))"
  by (simp add: fetchMoreRegular_def fetchMoreRegular_st_def oauthRequest_no_receiver_def Let_def)

text \<open>
  The store model computes what the model on values computes: the Listing at the
  returned reference is the Listing returned there, with the same log.
\<close>

lemma fetchMore_st_fetchMore:
  "valid h \<Longrightarrow> allocated h l \<Longrightarrow>
     fetchMore k E (Listing_at h l) arg lg =
       (result_of (fetchMore_st k E l arg h lg), log_of (fetchMore_st k E l arg h lg))"
proof (induction k arbitrary: l arg h lg)
  case 0
  then show ?case
    by simp
next
  case (Suc k)
  show ?case
  proof (cases "parse_options arg")
    case (Inl e)
    then show ?thesis
      by simp
  next
    case (Inr p)
    show ?thesis
    proof (cases "le_zero (p_amount p) \<or> isFinished (Listing_at h l)")
      case True
      with Suc.prems Inr show ?thesis
        by (rule fetchMore_st_finished)
    next
      case False
      show ?thesis
      proof (cases "o_cachedLookahead (get_Listing h l)")
        case (Some a)
        with Suc.prems Inr False show ?thesis
          by (rule fetchMore_st_lookahead) (rule Suc.IH)
      next
        case None
        hence la: "cachedLookahead (Listing_at h l) = None"
          by (simp add: Listing_at_def)
        show ?thesis
        proof (cases "o_more (get_Listing h l)")
          case (Some m)
          hence "more_stub (Listing_at h l) = Some (More_at h m)"
            by (simp add: Listing_at_def)
          with Inr False None Some la fetchMore_st_comments [OF Suc.prems Some, of E p lg]
          show ?thesis
            by (simp add: promiseWrap_run)
        next
          case no_more: None
          hence "more_stub (Listing_at h l) = None"
            by (simp add: Listing_at_def)
          with Inr False None no_more la
               fetchMore_st_regular [of "fetchMore k E" h l p lg "fetchMore_st k E"]
          show ?thesis
            by (simp add: promiseWrap_run)
        qed
      qed
    qed
  qed
qed


text \<open>
  Every Listing has a place in the store, and a call on it there is the call on the
  value: what is proved of \<open>fetchMore\<close> on values holds of \<open>fetchMore_st\<close> on a Listing
  built by \<open>store_Listing\<close>.
\<close>

lemma fetchMore_st_store_Listing:
  assumes "valid h"
  shows "fetchMore k E L arg lg =
           (result_of (fetchMore_st k E (snd (store_Listing L h)) arg (fst (store_Listing L h)) lg),
            log_of (fetchMore_st k E (snd (store_Listing L h)) arg (fst (store_Listing L h)) lg))"
proof -
  have "preserves h (fst (store_Listing L h))"
    by (simp add: preserves_store_Listing)
  hence v: "valid (fst (store_Listing L h))"
    using assms by (rule preserves_valid)
  from Listing_at_store_Listing [of L h]
  have a: "allocated (fst (store_Listing L h)) (snd (store_Listing L h))"
    and l: "Listing_at (fst (store_Listing L h)) (snd (store_Listing L h)) = L"
    by simp_all
  from fetchMore_st_fetchMore [OF v a, of k E arg lg] show ?thesis
    by (simp only: l)
qed

lemma valid_initial_heap: "valid initial_heap"
  by (simp add: valid_def allocated_More_def More_at_def initial_heap_def emptyChildren_def
        get_More_def get_ids_def)


end
